theory Spec2Isabelle
  imports Complex_Main
begin

section \<open>The DDQN trading agent of q\_learning.py\<close>

text \<open>
  Python floats are modelled as exact reals: rounding is not part of the model.
  Integer counters are Python's unbounded ints.  Exceptions are values of \<open>error\<close>.
\<close>

datatype error = ZeroDivisionError | ValueError | IndexError | KeyError | InvalidArgumentError

subsection \<open>The replay buffer: \<open>deque([], maxlen=replay_capacity)\<close>\<close>

text \<open>
  \<open>deque.append\<close> on a bounded deque adds the item on the right and, when the
  length then exceeds \<open>maxlen\<close>, removes one item from the left.
\<close>

definition deque_append :: "nat \<Rightarrow> 'a list \<Rightarrow> 'a \<Rightarrow> 'a list" where
  "deque_append maxlen d x =
     (let d' = d @ [x] in if length d' > maxlen then tl d' else d')"

subsection \<open>Networks\<close>

text \<open>
  A Keras model is its layer weights, the state of its optimizer and the
  \<open>trainable\<close> flag it was built with.  What the layers compute is not in the
  repository: \<open>predict\<close> (inference on one state, one action-value per output
  unit) and \<open>train_on_batch\<close> (one optimizer step, returning the new model
  and the loss) are parameters of the model, collected in \<open>keras\<close>.
\<close>

record ('w, 'o) network =
  weights :: 'w
  optimizer :: 'o
  trainable :: bool

record ('s, 'w, 'o) keras =
  predict :: "'w \<Rightarrow> 's \<Rightarrow> real list"
  train_on_batch :: "('w, 'o) network \<Rightarrow> 's list \<Rightarrow> real list list \<Rightarrow> ('w, 'o) network \<times> real"

text \<open>A transition is the tuple \<open>(s, a, r, s_prime, not_done)\<close>.\<close>

type_synonym 's transition = "'s \<times> nat \<times> real \<times> 's \<times> real"

subsection \<open>class DDQNAgent\<close>

record ('s, 'w, 'o) agent =
  state_dim :: nat
  num_actions :: nat
  experience :: "'s transition list"
  replay_capacity :: nat
  learning_rate :: real
  gamma :: real
  architecture :: "nat list"
  l2_reg :: real
  online_network :: "('w, 'o) network"
  target_network :: "('w, 'o) network"
  epsilon :: real
  epsilon_decay_steps :: int
  epsilon_decay :: real
  epsilon_exponential_decay :: real
  epsilon_history :: "real list"
  total_steps :: int
  train_steps :: int
  episodes :: int
  episode_length :: int
  train_episodes :: int
  steps_per_episode :: "int list"
  episode_reward :: real
  rewards_history :: "real list"
  batch_size :: nat
  tau :: int
  losses :: "real list"
  train :: bool

text \<open>\<open>update_target\<close>: \<open>target_network.set_weights(online_network.get_weights())\<close>.\<close>

definition update_target :: "('s, 'w, 'o) agent \<Rightarrow> ('s, 'w, 'o) agent" where
  "update_target a =
     a\<lparr>target_network := (target_network a)\<lparr>weights := weights (online_network a)\<rparr>\<rparr>"

text \<open>
  \<open>__init__\<close>.  The two freshly built models (\<open>build_model()\<close> and
  \<open>build_model(trainable=False)\<close>, with their random initial weights) are the
  arguments \<open>net_online\<close> and \<open>net_target\<close>.  A negative \<open>maxlen\<close> makes
  \<open>deque\<close> raise ValueError; the division by \<open>epsilon_decay_steps\<close> raises
  ZeroDivisionError at zero.
\<close>

definition DDQNAgent_init ::
  "nat \<Rightarrow> nat \<Rightarrow> real \<Rightarrow> real \<Rightarrow> real \<Rightarrow> real \<Rightarrow> int \<Rightarrow> real \<Rightarrow> int \<Rightarrow> nat list \<Rightarrow> real \<Rightarrow> int \<Rightarrow> nat
    \<Rightarrow> ('w, 'o) network \<Rightarrow> ('w, 'o) network \<Rightarrow> error + ('s, 'w, 'o) agent" where
  "DDQNAgent_init state_dim' num_actions' learning_rate' gamma' epsilon_start epsilon_end
      epsilon_decay_steps' epsilon_exponential_decay' replay_capacity' architecture' l2_reg'
      tau' batch_size' net_online net_target =
     (if replay_capacity' < 0 then Inl ValueError
      else if epsilon_decay_steps' = 0 then Inl ZeroDivisionError
      else Inr (update_target
        \<lparr> state_dim = state_dim',
          num_actions = num_actions',
          experience = [],
          replay_capacity = nat replay_capacity',
          learning_rate = learning_rate',
          gamma = gamma',
          architecture = architecture',
          l2_reg = l2_reg',
          online_network = net_online,
          target_network = net_target,
          epsilon = epsilon_start,
          epsilon_decay_steps = epsilon_decay_steps',
          epsilon_decay = (epsilon_start - epsilon_end) / real_of_int epsilon_decay_steps',
          epsilon_exponential_decay = epsilon_exponential_decay',
          epsilon_history = [],
          total_steps = 0,
          train_steps = 0,
          episodes = 0,
          episode_length = 0,
          train_episodes = 0,
          steps_per_episode = [],
          episode_reward = 0,
          rewards_history = [],
          batch_size = batch_size',
          tau = tau',
          losses = [],
          train = True \<rparr>))"

text \<open>
  \<open>memorize_transition\<close>.  \<open>if not_done:\<close> is the truth value of a float:
  false exactly at zero.
\<close>

definition memorize_transition ::
  "('s, 'w, 'o) agent \<Rightarrow> 's \<Rightarrow> nat \<Rightarrow> real \<Rightarrow> 's \<Rightarrow> real \<Rightarrow> ('s, 'w, 'o) agent" where
  "memorize_transition a s act r s_prime not_done =
     (let a1 =
        (if not_done \<noteq> 0 then
           a\<lparr>episode_reward := episode_reward a + r,
             episode_length := episode_length a + 1\<rparr>
         else
           (let a2 =
              (if train a then
                 (if episodes a < epsilon_decay_steps a
                  then a\<lparr>epsilon := epsilon a - epsilon_decay a\<rparr>
                  else a\<lparr>epsilon := epsilon a * epsilon_exponential_decay a\<rparr>)
               else a)
            in a2\<lparr>episodes := episodes a2 + 1,
                  rewards_history := rewards_history a2 @ [episode_reward a2],
                  steps_per_episode := steps_per_episode a2 @ [episode_length a2],
                  episode_reward := 0,
                  episode_length := 0\<rparr>))
      in a1\<lparr>experience :=
              deque_append (replay_capacity a1) (experience a1) (s, act, r, s_prime, not_done)\<rparr>)"

text \<open>A sequence of \<open>memorize_transition\<close> calls, one per transition, in order.\<close>

definition memorize_all ::
  "('s, 'w, 'o) agent \<Rightarrow> 's transition list \<Rightarrow> ('s, 'w, 'o) agent" where
  "memorize_all a ts =
     foldl (\<lambda>a (s, act, r, s_prime, not_done). memorize_transition a s act r s_prime not_done) a ts"

text \<open>A transition is terminal when its \<open>not_done\<close> flag is zero.\<close>

definition is_terminal :: "'s transition \<Rightarrow> bool" where
  "is_terminal t = (case t of (s, act, r, s_prime, not_done) \<Rightarrow> not_done = 0)"

subsection \<open>Action selection\<close>

text \<open>
  \<open>argmax\<close>: the index of the first maximal entry, as \<open>np.argmax\<close> and
  \<open>tf.argmax\<close> compute it along the action axis; there is none for an empty row.
\<close>

fun argmax_loop :: "real list \<Rightarrow> nat \<Rightarrow> nat \<Rightarrow> real \<Rightarrow> nat" where
  "argmax_loop [] i best_i best_v = best_i"
| "argmax_loop (x # xs) i best_i best_v =
     (if x > best_v then argmax_loop xs (Suc i) i x else argmax_loop xs (Suc i) best_i best_v)"

definition argmax :: "real list \<Rightarrow> nat option" where
  "argmax q = (case q of [] \<Rightarrow> None | x # xs \<Rightarrow> Some (argmax_loop xs 1 0 x))"

text \<open>
  \<open>epsilon_greedy_policy\<close>.  The two random draws are arguments: \<open>u\<close> is the
  value of \<open>np.random.rand()\<close>, a float in [0, 1), and \<open>c\<close> is the value of
  \<open>np.random.choice(num_actions)\<close>, an index below \<open>num_actions\<close> (the call raises
  ValueError when \<open>num_actions\<close> is 0, as \<open>np.argmax\<close> does on an empty row).
  The step counter is incremented before anything can raise.
\<close>

definition epsilon_greedy_policy ::
  "('s, 'w, 'o) keras \<Rightarrow> ('s, 'w, 'o) agent \<Rightarrow> 's \<Rightarrow> real \<Rightarrow> nat
    \<Rightarrow> ('s, 'w, 'o) agent \<times> (error + nat)" where
  "epsilon_greedy_policy K a state u c =
     (let a' = a\<lparr>total_steps := total_steps a + 1\<rparr> in
      if u \<le> epsilon a' then
        (a', if num_actions a' = 0 then Inl ValueError else Inr c)
      else
        (let q = predict K (weights (online_network a')) state in
         (a', case argmax q of None \<Rightarrow> Inl ValueError | Some b \<Rightarrow> Inr b)))"

subsection \<open>Experience replay\<close>

text \<open>\<open>tf.argmax(next_q_values, axis=1)\<close>: one index per row.\<close>

fun argmax_rows :: "real list list \<Rightarrow> error + nat list" where
  "argmax_rows [] = Inr []"
| "argmax_rows (q # qs) =
     (case argmax q of
        None \<Rightarrow> Inl InvalidArgumentError
      | Some b \<Rightarrow> (case argmax_rows qs of Inl e \<Rightarrow> Inl e | Inr bs \<Rightarrow> Inr (b # bs)))"

text \<open>\<open>tf.gather_nd(params, indices)\<close> with one (row, column) pair per sample.\<close>

fun gather_nd :: "real list list \<Rightarrow> (nat \<times> nat) list \<Rightarrow> error + real list" where
  "gather_nd params [] = Inr []"
| "gather_nd params ((i, j) # ixs) =
     (if i < length params \<and> j < length (params ! i) then
        (case gather_nd params ixs of Inl e \<Rightarrow> Inl e | Inr vs \<Rightarrow> Inr (params ! i ! j # vs))
      else Inl InvalidArgumentError)"

text \<open>
  \<open>q_values[[self.idx, actions]] = targets\<close>: entry (i, actions[i]) of the
  matrix is overwritten by targets[i], for each sample i.
\<close>

fun set_targets :: "real list list \<Rightarrow> (nat \<times> nat \<times> real) list \<Rightarrow> error + real list list" where
  "set_targets q [] = Inr q"
| "set_targets q ((i, act, t) # rest) =
     (if i < length q \<and> act < length (q ! i)
      then set_targets (q[i := (q ! i)[act := t]]) rest
      else Inl IndexError)"

text \<open>
  The Double-Q targets of \<open>experience_replay\<close> (from \<open>next_q_values\<close> to
  \<open>targets\<close>), for the sampled mini-batch.  \<open>self.idx\<close> is
  \<open>tf.range(batch_size)\<close>; \<open>predict_on_batch\<close> is \<open>predict\<close> on every row.
\<close>

definition compute_targets ::
  "('s, 'w, 'o) keras \<Rightarrow> ('s, 'w, 'o) agent \<Rightarrow> 's transition list \<Rightarrow> error + real list" where
  "compute_targets K a minibatch =
     (let rewards = map (\<lambda>(s, act, r, s_prime, not_done). r) minibatch;
          next_states = map (\<lambda>(s, act, r, s_prime, not_done). s_prime) minibatch;
          not_done = map (\<lambda>(s, act, r, s_prime, not_done). not_done) minibatch;
          idx = [0 ..< batch_size a];
          next_q_values = map (predict K (weights (online_network a))) next_states
      in case argmax_rows next_q_values of
           Inl e \<Rightarrow> Inl e
         | Inr best_actions \<Rightarrow>
            (let next_q_values_target = map (predict K (weights (target_network a))) next_states
             in case gather_nd next_q_values_target (zip idx best_actions) of
                  Inl e \<Rightarrow> Inl e
                | Inr target_q_values \<Rightarrow>
                    Inr (map (\<lambda>(r, nd, tq). r + nd * gamma a * tq)
                           (zip rewards (zip not_done target_q_values)))))"

text \<open>
  \<open>experience_replay\<close>.  The argument \<open>minibatch\<close> is the value of
  \<open>sample(self.experience, self.batch_size)\<close>: \<open>batch_size\<close> transitions
  of the buffer.  The result is the agent after the call and the exception
  raised, if any: unpacking an empty sample raises ValueError, and
  \<open>total_steps % tau\<close> raises ZeroDivisionError after the training step.
\<close>

definition experience_replay ::
  "('s, 'w, 'o) keras \<Rightarrow> ('s, 'w, 'o) agent \<Rightarrow> 's transition list
    \<Rightarrow> ('s, 'w, 'o) agent \<times> error option" where
  "experience_replay K a minibatch =
     (if batch_size a > length (experience a) then (a, None)
      else if minibatch = [] then (a, Some ValueError)
      else
        (let states = map (\<lambda>(s, act, r, s_prime, not_done). s) minibatch;
             actions = map (\<lambda>(s, act, r, s_prime, not_done). act) minibatch;
             idx = [0 ..< batch_size a]
         in case compute_targets K a minibatch of
              Inl e \<Rightarrow> (a, Some e)
            | Inr targets \<Rightarrow>
               (let q_values = map (predict K (weights (online_network a))) states
                in case set_targets q_values (zip idx (zip actions targets)) of
                     Inl e \<Rightarrow> (a, Some e)
                   | Inr y \<Rightarrow>
                      (let (net', loss) = train_on_batch K (online_network a) states y;
                           a1 = a\<lparr>online_network := net'\<rparr>;
                           a2 = a1\<lparr>losses := losses a1 @ [loss]\<rparr>
                       in if tau a2 = 0 then (a2, Some ZeroDivisionError)
                          else if total_steps a2 mod tau a2 = 0 then (update_target a2, None)
                          else (a2, None)))))"

subsection \<open>Calls on the agent\<close>

text \<open>
  The training loop calls \<open>epsilon_greedy_policy\<close>, \<open>memorize_transition\<close>
  and \<open>experience_replay\<close> on one agent.  A call is one of the three with its
  arguments (and random draws); \<open>step\<close> is the agent after the call, whether it
  returned or raised, and \<open>run\<close> a sequence of calls.
\<close>

datatype 's call = Act 's real nat | Memorize "'s transition" | Replay "'s transition list"

fun step :: "('s, 'w, 'o) keras \<Rightarrow> ('s, 'w, 'o) agent \<Rightarrow> 's call \<Rightarrow> ('s, 'w, 'o) agent" where
  "step K a (Act state u c) = fst (epsilon_greedy_policy K a state u c)"
| "step K a (Memorize (s, act, r, s_prime, not_done)) = memorize_transition a s act r s_prime not_done"
| "step K a (Replay minibatch) = fst (experience_replay K a minibatch)"

definition run :: "('s, 'w, 'o) keras \<Rightarrow> ('s, 'w, 'o) agent \<Rightarrow> 's call list \<Rightarrow> ('s, 'w, 'o) agent" where
  "run K a cs = foldl (step K) a cs"

text \<open>
  A replay call performs a learning update when it reaches \<open>train_on_batch\<close>,
  that is, when it records a loss.  It is a synchronisation point when, in
  addition, \<open>total_steps % tau == 0\<close> evaluates to true.
\<close>

definition learning_update ::
  "('s, 'w, 'o) keras \<Rightarrow> ('s, 'w, 'o) agent \<Rightarrow> 's transition list \<Rightarrow> bool" where
  "learning_update K a minibatch =
     (length (losses (fst (experience_replay K a minibatch))) = Suc (length (losses a)))"

fun sync_point :: "('s, 'w, 'o) keras \<Rightarrow> ('s, 'w, 'o) agent \<Rightarrow> 's call \<Rightarrow> bool" where
  "sync_point K a (Replay minibatch) =
     (learning_update K a minibatch \<and> tau a \<noteq> 0 \<and> total_steps a mod tau a = 0)"
| "sync_point K a (Act state u c) = False"
| "sync_point K a (Memorize t) = False"

fun no_sync :: "('s, 'w, 'o) keras \<Rightarrow> ('s, 'w, 'o) agent \<Rightarrow> 's call list \<Rightarrow> bool" where
  "no_sync K a [] = True"
| "no_sync K a (c # cs) = (\<not> sync_point K a c \<and> no_sync K (step K a c) cs)"

section \<open>The results table of q\_learning.py\<close>

text \<open>
  \<open>Series.rolling(window).sum()\<close> as pandas computes it for a fixed window:
  one pass over the values that keeps the number of observations in the
  window and their sum; at position \<open>i\<close> the value that leaves the window
  (position \<open>i - window\<close>) is removed, the value at \<open>i\<close> is added, and the
  output is the sum when at least \<open>min_periods\<close> observations are in the
  window, and NaN (\<open>None\<close>) otherwise.  \<open>min_periods\<close> defaults to the window.
\<close>

definition roll_step ::
  "nat \<Rightarrow> nat \<Rightarrow> real list \<Rightarrow> nat \<times> real \<times> real option list \<Rightarrow> nat
    \<Rightarrow> nat \<times> real \<times> real option list" where
  "roll_step window minp vs st i =
     (case st of (nobs, sum_x, out) \<Rightarrow>
        (let (nobs1, sum1) =
               (if i \<ge> window then (nobs - 1, sum_x - vs ! (i - window)) else (nobs, sum_x));
             (nobs2, sum2) = (nobs1 + 1, sum1 + vs ! i)
         in (nobs2, sum2, out @ [if nobs2 \<ge> minp then Some sum2 else None])))"

definition rolling_sum :: "nat \<Rightarrow> real list \<Rightarrow> real option list" where
  "rolling_sum window vs =
     (case foldl (roll_step window window vs) (0, 0, []) [0 ..< length vs] of
        (nobs, sum_x, out) \<Rightarrow> out)"

text \<open>
  \<open>results['Strategy Wins (%)'] = (results.Difference > 0).rolling(100).sum()\<close>:
  the comparison gives booleans, which the rolling sum reads as 1.0 and 0.0.
\<close>

definition strategy_wins :: "real list \<Rightarrow> real option list" where
  "strategy_wins diffs' = rolling_sum 100 (map (\<lambda>d. if d > 0 then 1 else 0) diffs')"

record results_table =
  Episode :: "int list"
  Agent :: "real list"
  Market :: "real list"
  Difference :: "real list"
  Strategy_Wins :: "real option list"

text \<open>
  The table built after the training loop; \<open>episode\<close> is the last value of the
  loop variable.  \<open>pd.DataFrame\<close> raises ValueError when the columns differ in
  length.
\<close>

definition results :: "int \<Rightarrow> real list \<Rightarrow> real list \<Rightarrow> real list \<Rightarrow> error + results_table" where
  "results episode navs market_navs diffs' =
     (let eps = [1 .. episode] in
      if length navs = length eps \<and> length market_navs = length eps \<and> length diffs' = length eps
      then Inr \<lparr> Episode = eps, Agent = navs, Market = market_navs, Difference = diffs',
                 Strategy_Wins = strategy_wins diffs' \<rparr>
      else Inl ValueError)"

section \<open>The DataFrame helpers of test.py\<close>

text \<open>
  A column label is a string or, under a MultiIndex, a tuple of strings.  A
  DataFrame holds its column labels, its row labels and one list of cells per
  column.  Objects live in a heap, a reference is a position in it, and a
  reference held by the program is below the length of the heap.  Strings are
  sequences of code points below 256.
\<close>

datatype label = Str string | Tup "string list"

record ('i, 'c) dataframe =
  columns :: "label list"
  index :: "'i list"
  data :: "'c list list"

type_synonym ('i, 'c) heap = "('i, 'c) dataframe list"

text \<open>\<open>df[key]\<close> on an exact column label: a Series, or a frame when the label repeats.\<close>

datatype 'c selection = Series "'c list" | Frame "'c list list"

definition getitem_key :: "('i, 'c) dataframe \<Rightarrow> label \<Rightarrow> error + 'c selection" where
  "getitem_key df key =
     (case map snd (filter (\<lambda>(l, c). l = key) (zip (columns df) (data df))) of
        [] \<Rightarrow> Inl KeyError
      | [c] \<Rightarrow> Inr (Series c)
      | cs \<Rightarrow> Inr (Frame cs))"

text \<open>\<open>df[m]\<close> on a boolean mask: a new frame with the rows where the mask is true.\<close>

definition select_rows :: "bool list \<Rightarrow> 'a list \<Rightarrow> 'a list" where
  "select_rows m xs = map snd (filter fst (zip m xs))"

definition getitem_bool :: "('i, 'c) dataframe \<Rightarrow> bool list \<Rightarrow> error + ('i, 'c) dataframe" where
  "getitem_bool df m =
     (if length m \<noteq> length (index df) then Inl ValueError
      else Inr \<lparr> columns = columns df,
                 index = select_rows m (index df),
                 data = map (select_rows m) (data df) \<rparr>)"

text \<open>
  \<open>mask(df, key, function)\<close>: \<open>df[function(df[key])]\<close>.  The result is the
  heap after the call and the reference to the new frame, or the exception.
\<close>

definition mask ::
  "('i, 'c) heap \<Rightarrow> nat \<Rightarrow> label \<Rightarrow> ('c selection \<Rightarrow> bool list) \<Rightarrow> ('i, 'c) heap \<times> (error + nat)" where
  "mask h df key function =
     (case getitem_key (h ! df) key of
        Inl e \<Rightarrow> (h, Inl e)
      | Inr sel \<Rightarrow>
         (case getitem_bool (h ! df) (function sel) of
            Inl e \<Rightarrow> (h, Inl e)
          | Inr out \<Rightarrow> (h @ [out], Inr (length h))))"

text \<open>\<open>sep.join(parts)\<close> and \<open>str.strip()\<close>.\<close>

fun str_join :: "string \<Rightarrow> string list \<Rightarrow> string" where
  "str_join sep [] = []"
| "str_join sep [x] = x"
| "str_join sep (x # y # ys) = x @ sep @ str_join sep (y # ys)"

definition isspace :: "char \<Rightarrow> bool" where
  "isspace c = (of_char c \<in> {9, 10, 11, 12, 13, 28, 29, 30, 31, 32, 133, 160 :: nat})"

definition strip :: "string \<Rightarrow> string" where
  "strip s = rev (dropWhile isspace (rev (dropWhile isspace s)))"

text \<open>Iterating over a label: a tuple gives its levels, a string its characters.\<close>

fun label_parts :: "label \<Rightarrow> string list" where
  "label_parts (Tup ls) = ls"
| "label_parts (Str s) = map (\<lambda>c. [c]) s"

text \<open>
  \<open>flatten_cols(df)\<close>: assigns the new labels to \<open>df.columns\<close> and returns
  \<open>df\<close>.
\<close>

definition flatten_cols :: "('i, 'c) heap \<Rightarrow> nat \<Rightarrow> ('i, 'c) heap \<times> nat" where
  "flatten_cols h df =
     (h[df := (h ! df)\<lparr>columns :=
          map (\<lambda>col. Str (strip (str_join '' '' (label_parts col)))) (columns (h ! df))\<rparr>], df)"


section \<open>Concrete instances\<close>

text \<open>
  A small network interface and an agent built by \<open>__init__\<close> with the
  notebook's hyperparameters, except for the initial exploration probability,
  the replay capacity and the batch size, which are arguments.  The toy
  \<open>predict\<close> depends on the parity of the weights; the toy training step
  increments them.
\<close>

definition demo_net :: "(nat, unit) network" where
  "demo_net = \<lparr> weights = 0, optimizer = (), trainable = True \<rparr>"

definition demo_keras :: "(nat, nat, unit) keras" where
  "demo_keras =
     \<lparr> predict = (\<lambda>w s. if even w then [1, 5, 2] else [7, 0, 3]),
       train_on_batch = (\<lambda>net xs ys. (net\<lparr>weights := Suc (weights net)\<rparr>, 0)) \<rparr>"

text \<open>
  The same interface with a training step whose loss is the sum of the entries
  of the regression matrix it is handed, so that the matrix can be read off the
  recorded loss.
\<close>

definition demo_keras_y :: "(nat, nat, unit) keras" where
  "demo_keras_y =
     \<lparr> predict = (\<lambda>w s. if even w then [1, 5, 2] else [7, 0, 3]),
       train_on_batch = (\<lambda>net xs ys. (net\<lparr>weights := Suc (weights net)\<rparr>, sum_list (concat ys))) \<rparr>"

definition demo_agent :: "real \<Rightarrow> int \<Rightarrow> nat \<Rightarrow> (nat, nat, unit) agent" where
  "demo_agent epsilon_start capacity bs =
     projr (DDQNAgent_init 1 3 (1 / 10000) (99 / 100) epsilon_start (1 / 100) 250 (99 / 100)
              capacity [256, 256] (1 / 1000000) 100 bs demo_net (demo_net\<lparr>trainable := False\<rparr>))"


text \<open>
  A frame with two-level column labels and three rows, and the predicate
  \<open>lambda s: s > 0\<close> on a numeric column.
\<close>

definition demo_frame :: "(int, real) dataframe" where
  "demo_frame =
     \<lparr> columns = [Tup [''a'', ''''], Tup [''b'', ''c'']],
       index = [0, 1, 2],
       data = [[1, - 2, 3], [4, 5, 6]] \<rparr>"

definition demo_positive :: "real selection \<Rightarrow> bool list" where
  "demo_positive sel = (case sel of Series c \<Rightarrow> map (\<lambda>v. 0 < v) c | Frame cs \<Rightarrow> [])"

section \<open>Properties of the agent\<close>

subsection \<open>Basic facts\<close>

lemma memorize_all_Nil: "memorize_all a [] = a"
  by (simp add: memorize_all_def)

lemma memorize_all_Cons:
  "memorize_all a ((s, act, r, s', nd) # ts) = memorize_all (memorize_transition a s act r s' nd) ts"
  by (simp add: memorize_all_def)

lemma memorize_all_append:
  "memorize_all a (ts @ us) = memorize_all (memorize_all a ts) us"
  by (simp add: memorize_all_def)

lemma memorize_transition_frame:
  "train (memorize_transition a s act r s' nd) = train a"
  "epsilon_decay (memorize_transition a s act r s' nd) = epsilon_decay a"
  "epsilon_decay_steps (memorize_transition a s act r s' nd) = epsilon_decay_steps a"
  "epsilon_exponential_decay (memorize_transition a s act r s' nd) = epsilon_exponential_decay a"
  "target_network (memorize_transition a s act r s' nd) = target_network a"
  "online_network (memorize_transition a s act r s' nd) = online_network a"
  by (simp_all add: memorize_transition_def Let_def)

lemma memorize_nonterminal:
  "nd \<noteq> 0 \<Longrightarrow> epsilon (memorize_transition a s act r s' nd) = epsilon a"
  "nd \<noteq> 0 \<Longrightarrow> episodes (memorize_transition a s act r s' nd) = episodes a"
  "nd \<noteq> 0 \<Longrightarrow> episode_reward (memorize_transition a s act r s' nd) = episode_reward a + r"
  "nd \<noteq> 0 \<Longrightarrow> episode_length (memorize_transition a s act r s' nd) = episode_length a + 1"
  "nd \<noteq> 0 \<Longrightarrow> rewards_history (memorize_transition a s act r s' nd) = rewards_history a"
  "nd \<noteq> 0 \<Longrightarrow> steps_per_episode (memorize_transition a s act r s' nd) = steps_per_episode a"
  by (simp_all add: memorize_transition_def Let_def)

lemma memorize_terminal:
  "episodes (memorize_transition a s act r s' 0) = episodes a + 1"
  "episode_reward (memorize_transition a s act r s' 0) = 0"
  "episode_length (memorize_transition a s act r s' 0) = 0"
  "rewards_history (memorize_transition a s act r s' 0) = rewards_history a @ [episode_reward a]"
  "steps_per_episode (memorize_transition a s act r s' 0) = steps_per_episode a @ [episode_length a]"
  "epsilon (memorize_transition a s act r s' 0) =
     (if train a then
        (if episodes a < epsilon_decay_steps a then epsilon a - epsilon_decay a
         else epsilon a * epsilon_exponential_decay a)
      else epsilon a)"
  by (simp_all add: memorize_transition_def Let_def)

lemma epsilon_linear_phase:
  "train a \<Longrightarrow>
   episodes a + int (length (filter is_terminal ts)) \<le> epsilon_decay_steps a \<Longrightarrow>
   epsilon (memorize_all a ts)
      = epsilon a - real (length (filter is_terminal ts)) * epsilon_decay a
    \<and> episodes (memorize_all a ts) = episodes a + int (length (filter is_terminal ts))
    \<and> train (memorize_all a ts)
    \<and> epsilon_decay_steps (memorize_all a ts) = epsilon_decay_steps a
    \<and> epsilon_exponential_decay (memorize_all a ts) = epsilon_exponential_decay a"
proof (induction ts arbitrary: a)
  case Nil
  then show ?case by (simp add: memorize_all_Nil)
next
  case (Cons t ts)
  obtain s act r s' nd where t: "t = (s, act, r, s', nd)" by (cases t) auto
  let ?a = "memorize_transition a s act r s' nd"
  show ?case
  proof (cases "nd = 0")
    case True
    have tm: "is_terminal t" by (simp add: is_terminal_def t True)
    have lt: "episodes a < epsilon_decay_steps a" using Cons.prems(2) tm by simp
    have eps: "epsilon ?a = epsilon a - epsilon_decay a"
      using Cons.prems(1) lt by (simp add: True memorize_terminal)
    have ep: "episodes ?a = episodes a + 1" by (simp add: True memorize_terminal)
    have "train ?a" using Cons.prems(1) by (simp add: memorize_transition_frame)
    moreover have "episodes ?a + int (length (filter is_terminal ts)) \<le> epsilon_decay_steps ?a"
      using Cons.prems(2) tm by (simp add: ep memorize_transition_frame)
    ultimately have IH: "epsilon (memorize_all ?a ts)
        = epsilon ?a - real (length (filter is_terminal ts)) * epsilon_decay ?a
      \<and> episodes (memorize_all ?a ts) = episodes ?a + int (length (filter is_terminal ts))
      \<and> train (memorize_all ?a ts)
      \<and> epsilon_decay_steps (memorize_all ?a ts) = epsilon_decay_steps ?a
      \<and> epsilon_exponential_decay (memorize_all ?a ts) = epsilon_exponential_decay ?a"
      by (rule Cons.IH)
    show ?thesis unfolding t memorize_all_Cons
      using IH tm by (simp add: eps ep memorize_transition_frame t algebra_simps)
  next
    case False
    have tm: "\<not> is_terminal t" by (simp add: is_terminal_def t False)
    have "train ?a" using Cons.prems(1) by (simp add: memorize_transition_frame)
    moreover have "episodes ?a + int (length (filter is_terminal ts)) \<le> epsilon_decay_steps ?a"
      using Cons.prems(2) tm False by (simp add: memorize_nonterminal memorize_transition_frame)
    ultimately have IH: "epsilon (memorize_all ?a ts)
        = epsilon ?a - real (length (filter is_terminal ts)) * epsilon_decay ?a
      \<and> episodes (memorize_all ?a ts) = episodes ?a + int (length (filter is_terminal ts))
      \<and> train (memorize_all ?a ts)
      \<and> epsilon_decay_steps (memorize_all ?a ts) = epsilon_decay_steps ?a
      \<and> epsilon_exponential_decay (memorize_all ?a ts) = epsilon_exponential_decay ?a"
      by (rule Cons.IH)
    show ?thesis unfolding t memorize_all_Cons
      using IH tm False by (simp add: memorize_nonterminal memorize_transition_frame t)
  qed
qed

lemma init_fields:
  assumes "DDQNAgent_init sd na lr g es ee eds eed rc arch l2 t bs n1 n2 = Inr a"
  shows "epsilon a = es" "epsilon_decay a = (es - ee) / real_of_int eds"
    "epsilon_decay_steps a = eds" "epsilon_exponential_decay a = eed" "episodes a = 0"
    "train a" "experience a = []" "replay_capacity a = nat rc" "episode_reward a = 0"
    "episode_length a = 0" "rewards_history a = []" "steps_per_episode a = []"
    "weights (target_network a) = weights (online_network a)" "online_network a = n1"
    "total_steps a = 0" "losses a = []" "tau a = t" "batch_size a = bs" "gamma a = g"
    "num_actions a = na" "0 \<le> rc" "eds \<noteq> 0"
  using assms by (auto simp: DDQNAgent_init_def update_target_def split: if_splits)

lemma demo_agent_init:
  "0 \<le> capacity \<Longrightarrow>
   DDQNAgent_init 1 3 (1 / 10000) (99 / 100) es (1 / 100) 250 (99 / 100)
      capacity [256, 256] (1 / 1000000) 100 bs demo_net (demo_net\<lparr>trainable := False\<rparr>)
     = Inr (demo_agent es capacity bs)"
  by (simp add: demo_agent_def DDQNAgent_init_def)


subsection \<open>The replay buffer\<close>

lemma deque_append_length: "length d \<le> m \<Longrightarrow> length (deque_append m d x) \<le> m"
  by (simp add: deque_append_def Let_def)

lemma deque_append_drop:
  "length d \<le> m \<Longrightarrow> deque_append m d x = drop (length (d @ [x]) - m) (d @ [x])"
  by (cases d) (auto simp: deque_append_def Let_def Suc_diff_le)

lemma memorize_transition_experience:
  "experience (memorize_transition a s act r s' nd)
     = deque_append (replay_capacity a) (experience a) (s, act, r, s', nd)"
  by (simp add: memorize_transition_def Let_def)

lemma memorize_transition_capacity:
  "replay_capacity (memorize_transition a s act r s' nd) = replay_capacity a"
  by (simp add: memorize_transition_def Let_def)

lemma memorize_all_capacity: "replay_capacity (memorize_all a ts) = replay_capacity a"
proof (induction ts arbitrary: a)
  case Nil
  then show ?case by (simp add: memorize_all_Nil)
next
  case (Cons t ts)
  obtain s act r s' nd where t: "t = (s, act, r, s', nd)" by (cases t) auto
  show ?case unfolding t memorize_all_Cons
    by (simp add: Cons.IH memorize_transition_capacity)
qed

lemma drop_drop_window:
  "drop (length (drop (length ys - m) ys @ ts) - m) (drop (length ys - m) ys @ ts)
     = drop (length (ys @ ts) - m) (ys @ (ts :: 'a list))"
proof -
  let ?k = "length ys - m"
  have 1: "drop ?k ys @ ts = drop ?k (ys @ ts)" by simp
  have 2: "length (drop ?k (ys @ ts)) - m + ?k = length (ys @ ts) - m" by auto
  show ?thesis unfolding 1 drop_drop 2 ..
qed

lemma memorize_all_experience:
  "length (experience a) \<le> replay_capacity a \<Longrightarrow>
   experience (memorize_all a ts)
     = drop (length (experience a @ ts) - replay_capacity a) (experience a @ ts)"
proof (induction ts arbitrary: a)
  case Nil
  then show ?case by (simp add: memorize_all_Nil)
next
  case (Cons t ts)
  obtain s act r s' nd where t: "t = (s, act, r, s', nd)" by (cases t) auto
  let ?a = "memorize_transition a s act r s' nd"
  let ?m = "replay_capacity a"
  let ?ys = "experience a @ [t]"
  have e: "experience ?a = drop (length ?ys - ?m) ?ys"
    using Cons.prems by (simp add: memorize_transition_experience deque_append_drop t)
  have len: "length (experience ?a) \<le> replay_capacity ?a"
    using Cons.prems
    by (simp add: memorize_transition_experience memorize_transition_capacity deque_append_length)
  have "experience (memorize_all ?a ts)
      = drop (length (experience ?a @ ts) - ?m) (experience ?a @ ts)"
    using Cons.IH[OF len] by (simp add: memorize_transition_capacity)
  also have "\<dots> = drop (length (?ys @ ts) - ?m) (?ys @ ts)"
    unfolding e by (rule drop_drop_window)
  finally show ?case by (simp add: t memorize_all_Cons)
qed


text \<open>
  C4.  The buffer starts within its capacity (it starts empty).  After any
  sequence of \<open>memorize_transition\<close> calls it holds at most
  \<open>replay_capacity\<close> transitions, namely the most recent ones in arrival order.
  Every call appends its transition at the right end; when the buffer was
  full, the oldest transition (the head) is the one that is dropped.
\<close>

theorem replay_buffer_bounded_fifo:
  assumes "length (experience a) \<le> replay_capacity a"
  shows "length (experience (memorize_all a ts)) \<le> replay_capacity a
    \<and> experience (memorize_all a ts)
        = drop (length (experience a @ ts) - replay_capacity a) (experience a @ ts)
    \<and> experience (memorize_transition a s act r s' nd)
        = (if length (experience a) < replay_capacity a
           then experience a @ [(s, act, r, s', nd)]
           else if 0 < replay_capacity a then tl (experience a) @ [(s, act, r, s', nd)]
           else [])"
proof -
  have 2: "experience (memorize_all a ts)
           = drop (length (experience a @ ts) - replay_capacity a) (experience a @ ts)"
    using assms by (rule memorize_all_experience)
  have 1: "length (experience (memorize_all a ts)) \<le> replay_capacity a"
    unfolding 2 by simp
  have 3: "experience (memorize_transition a s act r s' nd)
        = (if length (experience a) < replay_capacity a
           then experience a @ [(s, act, r, s', nd)]
           else if 0 < replay_capacity a then tl (experience a) @ [(s, act, r, s', nd)]
           else [])"
    using assms
    by (cases "experience a") (auto simp: memorize_transition_experience deque_append_def Let_def)
  show ?thesis using 1 2 3 by blast
qed

theorem replay_buffer_bounded_fifo_witness:
  "length (experience (demo_agent 1 2 4)) \<le> replay_capacity (demo_agent 1 2 4)
   \<and> experience (memorize_all (demo_agent 1 2 4) [(11, 0, 5, 12, 1), (12, 2, 6, 13, 1), (13, 2, 7, 14, 0)])
       = [(12, 2, 6, 13, 1), (13, 2, 7, 14, 0)]
   \<and> experience (memorize_transition
        (memorize_all (demo_agent 1 2 4) [(11, 0, 5, 12, 1), (12, 2, 6, 13, 1), (13, 2, 7, 14, 0)])
        14 0 8 15 1)
       = [(13, 2, 7, 14, 0), (14, 0, 8, 15, 1)]"
proof -
  let ?a = "demo_agent 1 2 4"
  let ?ts = "[(11::nat, 0::nat, 5::real, 12::nat, 1::real), (12, 2, 6, 13, 1), (13, 2, 7, 14, 0)]"
  have i: "DDQNAgent_init 1 3 (1 / 10000) (99 / 100) 1 (1 / 100) 250 (99 / 100)
      2 [256, 256] (1 / 1000000) 100 4 demo_net (demo_net\<lparr>trainable := False\<rparr>) = Inr ?a"
    by (rule demo_agent_init) simp
  have e: "experience ?a = []" and c: "replay_capacity ?a = 2"
    using init_fields[OF i] by simp_all
  have h: "length (experience ?a) \<le> replay_capacity ?a" by (simp add: e)
  have cc: "replay_capacity (memorize_all ?a ?ts) = 2"
    by (simp add: memorize_all_capacity c)
  have r1: "experience (memorize_all ?a ?ts) = [(12, 2, 6, 13, 1), (13, 2, 7, 14, 0)]"
    using replay_buffer_bounded_fifo[OF h, of ?ts] by (simp add: e c)
  have h2: "length (experience (memorize_all ?a ?ts)) \<le> replay_capacity (memorize_all ?a ?ts)"
    by (simp add: r1 cc)
  have r2: "experience (memorize_transition (memorize_all ?a ?ts) 14 0 8 15 1)
       = [(13, 2, 7, 14, 0), (14, 0, 8, 15, 1)]"
    using replay_buffer_bounded_fifo[OF h2, of "[]" 14 0 8 15 1] by (simp add: r1 cc)
  show ?thesis using h r1 r2 by blast
qed

subsection \<open>The exploration schedule\<close>

text \<open>
  C2.  For an agent constructed with \<open>epsilon_start = 1.0\<close>,
  \<open>epsilon_end = 0.01\<close>, \<open>epsilon_decay_steps = 250\<close> and
  \<open>epsilon_exponential_decay = 0.99\<close> (the constructor sets \<open>train\<close>), after
  recording calls of which exactly 250 were terminal, epsilon is
  \<open>1.0 - 250 * ((1.0 - 0.01) / 250) = 0.01\<close>, and one more terminal call makes
  it \<open>0.01 * 0.99 = 0.0099\<close>.  The arithmetic is that of the reals.
\<close>

theorem epsilon_schedule:
  assumes init: "DDQNAgent_init sd na lr g 1 (1 / 100) 250 (99 / 100) rc arch l2 t bs n1 n2 = Inr a"
    and n: "length (filter is_terminal ts) = 250"
  shows "epsilon (memorize_all a ts) = 1 - 250 * ((1 - 1 / 100) / 250)
       \<and> epsilon (memorize_all a ts) = 1 / 100
       \<and> epsilon (memorize_transition (memorize_all a ts) s act r s' 0) = 1 / 100 * (99 / 100)
       \<and> epsilon (memorize_transition (memorize_all a ts) s act r s' 0) = 99 / 10000"
proof -
  have "train a" and "episodes a + int (length (filter is_terminal ts)) \<le> epsilon_decay_steps a"
    using init_fields[OF init] n by simp_all
  from epsilon_linear_phase[OF this]
  have e: "epsilon (memorize_all a ts) = 1 / 100"
    and ep: "episodes (memorize_all a ts) = 250"
    and tr: "train (memorize_all a ts)"
    and st: "epsilon_decay_steps (memorize_all a ts) = 250"
    and ed: "epsilon_exponential_decay (memorize_all a ts) = 99 / 100"
    using init_fields[OF init] n by simp_all
  show ?thesis by (simp add: memorize_terminal e ep tr st ed)
qed


theorem epsilon_schedule_witness:
  "length (filter is_terminal (replicate 250 (0::nat, 0::nat, 0::real, 0::nat, 0::real))) = 250
   \<and> epsilon (memorize_all (demo_agent 1 1000000 4096) (replicate 250 (0, 0, 0, 0, 0))) = 1 / 100
   \<and> epsilon (memorize_transition
        (memorize_all (demo_agent 1 1000000 4096) (replicate 250 (0, 0, 0, 0, 0))) 0 0 0 0 0)
       = 99 / 10000"
proof -
  have n: "length (filter is_terminal (replicate 250 (0::nat, 0::nat, 0::real, 0::nat, 0::real))) = 250"
    by (simp add: is_terminal_def)
  have i: "DDQNAgent_init 1 3 (1 / 10000) (99 / 100) 1 (1 / 100) 250 (99 / 100)
      1000000 [256, 256] (1 / 1000000) 100 4096 demo_net (demo_net\<lparr>trainable := False\<rparr>)
     = Inr (demo_agent 1 1000000 4096)"
    by (rule demo_agent_init) simp
  show ?thesis using epsilon_schedule[OF i n, of 0 0 0 0] n by simp
qed



subsection \<open>Episode bookkeeping\<close>

lemma nonterminal_run:
  "\<forall>t\<in>set ts. \<not> is_terminal t \<Longrightarrow>
   episode_reward (memorize_all a ts)
      = episode_reward a + sum_list (map (\<lambda>(s, act, r, s_prime, not_done). r) ts)
   \<and> episode_length (memorize_all a ts) = episode_length a + int (length ts)
   \<and> rewards_history (memorize_all a ts) = rewards_history a
   \<and> steps_per_episode (memorize_all a ts) = steps_per_episode a"
proof (induction ts arbitrary: a)
  case Nil
  then show ?case by (simp add: memorize_all_Nil)
next
  case (Cons t ts)
  obtain s act r s' nd where t: "t = (s, act, r, s', nd)" by (cases t) auto
  have nd: "nd \<noteq> 0" using Cons.prems by (simp add: t is_terminal_def)
  have "\<forall>t\<in>set ts. \<not> is_terminal t" using Cons.prems by simp
  from Cons.IH[OF this, of "memorize_transition a s act r s' nd"]
  show ?case unfolding t memorize_all_Cons using nd by (simp add: memorize_nonterminal)
qed

lemma episode_entry_omits_terminal_step:
  assumes "\<forall>t\<in>set ts. \<not> is_terminal t"
  shows "rewards_history (memorize_transition (memorize_all a ts) s act r s' 0)
           = rewards_history a
               @ [episode_reward a + sum_list (map (\<lambda>(s, act, r, s_prime, not_done). r) ts)]
       \<and> steps_per_episode (memorize_transition (memorize_all a ts) s act r s' 0)
           = steps_per_episode a @ [episode_length a + int (length ts)]
       \<and> episode_reward (memorize_transition (memorize_all a ts) s act r s' 0) = 0
       \<and> episode_length (memorize_transition (memorize_all a ts) s act r s' 0) = 0"
  using nonterminal_run[OF assms, of a] by (simp add: memorize_terminal)


text \<open>
  C6.  The claim asks for the sum of all n+1 rewards and for n+1 steps.  The
  terminal call takes the \<open>else\<close> branch, which appends the running totals
  without adding its own reward or counting its own step: after one
  non-terminal call with reward 3 and a terminal call with reward 4, the
  entries are 3 (not 7) and 1 (not 2).  The running totals are reset to zero.
\<close>

theorem episode_totals_omit_terminal_step:
  "rewards_history (memorize_all (demo_agent 1 10 2) [(10, 0, 3, 11, 1), (11, 2, 4, 12, 0)]) = [3]
   \<and> steps_per_episode (memorize_all (demo_agent 1 10 2) [(10, 0, 3, 11, 1), (11, 2, 4, 12, 0)]) = [1]
   \<and> episode_reward (memorize_all (demo_agent 1 10 2) [(10, 0, 3, 11, 1), (11, 2, 4, 12, 0)]) = 0
   \<and> episode_length (memorize_all (demo_agent 1 10 2) [(10, 0, 3, 11, 1), (11, 2, 4, 12, 0)]) = 0"
proof -
  have i: "DDQNAgent_init 1 3 (1 / 10000) (99 / 100) 1 (1 / 100) 250 (99 / 100)
      10 [256, 256] (1 / 1000000) 100 2 demo_net (demo_net\<lparr>trainable := False\<rparr>)
       = Inr (demo_agent 1 10 2)"
    by (rule demo_agent_init) simp
  show ?thesis using init_fields[OF i]
    by (simp add: memorize_all_Cons memorize_all_Nil memorize_terminal memorize_nonterminal)
qed


subsection \<open>Replay on a short buffer\<close>

text \<open>
  C5.  When the buffer holds fewer transitions than \<open>batch_size\<close>,
  \<open>experience_replay\<close> returns without raising and the agent is the same in
  every field: both networks and the losses among them.
\<close>

theorem experience_replay_small_buffer_noop:
  assumes "length (experience a) < batch_size a"
  shows "experience_replay K a minibatch = (a, None)"
  using assms by (simp add: experience_replay_def)

theorem experience_replay_small_buffer_noop_witness:
  "length (experience (demo_agent 1 10 2)) < batch_size (demo_agent 1 10 2)
   \<and> experience_replay demo_keras (demo_agent 1 10 2) [] = (demo_agent 1 10 2, None)"
proof -
  have i: "DDQNAgent_init 1 3 (1 / 10000) (99 / 100) 1 (1 / 100) 250 (99 / 100)
      10 [256, 256] (1 / 1000000) 100 2 demo_net (demo_net\<lparr>trainable := False\<rparr>)
       = Inr (demo_agent 1 10 2)"
    by (rule demo_agent_init) simp
  have h: "length (experience (demo_agent 1 10 2)) < batch_size (demo_agent 1 10 2)"
    using init_fields[OF i] by simp
  show ?thesis using experience_replay_small_buffer_noop[OF h] h by simp
qed


subsection \<open>Action selection\<close>

lemma argmax_loop_spec:
  "length pre = i \<Longrightarrow> bi < i \<Longrightarrow> pre ! bi = bv \<Longrightarrow>
   \<forall>j<i. pre ! j \<le> bv \<Longrightarrow> \<forall>j<bi. pre ! j < bv \<Longrightarrow>
   (let b = argmax_loop xs i bi bv in
      b < length (pre @ xs) \<and> (\<forall>j<length (pre @ xs). (pre @ xs) ! j \<le> (pre @ xs) ! b)
      \<and> (\<forall>j<b. (pre @ xs) ! j < (pre @ xs) ! b))"
proof (induction xs arbitrary: pre i bi bv)
  case Nil
  then show ?case by (simp add: Let_def)
next
  case (Cons x xs)
  let ?pre = "pre @ [x]"
  have len: "length ?pre = Suc i" using Cons.prems(1) by simp
  show ?case
  proof (cases "x > bv")
    case True
    have a: "i < Suc i" by simp
    have b: "?pre ! i = x" using Cons.prems(1) by (simp add: nth_append)
    have c: "\<forall>j<Suc i. ?pre ! j \<le> x"
      using Cons.prems(1,4) True by (auto simp: nth_append less_Suc_eq)
    have d: "\<forall>j<i. ?pre ! j < x"
      using Cons.prems(1,4) True by (auto simp: nth_append intro: le_less_trans)
    from Cons.IH[OF len a b c d] show ?thesis using True by (simp add: Let_def)
  next
    case False
    have a: "bi < Suc i" using Cons.prems(2) by simp
    have b: "?pre ! bi = bv" using Cons.prems(1,2,3) by (simp add: nth_append)
    have c: "\<forall>j<Suc i. ?pre ! j \<le> bv"
      using Cons.prems(1,4) False by (auto simp: nth_append less_Suc_eq)
    have d: "\<forall>j<bi. ?pre ! j < bv"
      using Cons.prems(1,2,5) by (auto simp: nth_append)
    from Cons.IH[OF len a b c d] show ?thesis using False by (simp add: Let_def)
  qed
qed

lemma argmax_None: "argmax q = None \<longleftrightarrow> q = []"
  by (simp add: argmax_def split: list.splits)

lemma argmax_Some:
  assumes "argmax q = Some b"
  shows "b < length q \<and> (\<forall>j<length q. q ! j \<le> q ! b) \<and> (\<forall>j<b. q ! j < q ! b)"
proof -
  from assms obtain x xs where q: "q = x # xs" and b: "b = argmax_loop xs 1 0 x"
    by (auto simp: argmax_def split: list.splits)
  have "let b = argmax_loop xs 1 0 x in
      b < length ([x] @ xs) \<and> (\<forall>j<length ([x] @ xs). ([x] @ xs) ! j \<le> ([x] @ xs) ! b)
      \<and> (\<forall>j<b. ([x] @ xs) ! j < ([x] @ xs) ! b)"
    by (rule argmax_loop_spec) simp_all
  then show ?thesis by (simp add: q b Let_def)
qed

lemma demo_argmax: "argmax [1, 5, 2] = Some 1"
  by (simp add: argmax_def)


text \<open>
  C7 as stated fails: with epsilon 0 and a draw of exactly 0.0 (a value
  \<open>np.random.rand()\<close> can return), \<open>u <= epsilon\<close> holds and the random index
  is returned, here 0, while the argmax of the action-values [1, 5, 2] is 1.
\<close>

theorem epsilon_zero_draw_zero_explores:
  "epsilon (demo_agent 0 10 2) = 0
   \<and> snd (epsilon_greedy_policy demo_keras (demo_agent 0 10 2) 7 0 0) = Inr 0
   \<and> argmax (predict demo_keras (weights (online_network (demo_agent 0 10 2))) 7) = Some 1"
proof -
  have i: "DDQNAgent_init 1 3 (1 / 10000) (99 / 100) 0 (1 / 100) 250 (99 / 100)
      10 [256, 256] (1 / 1000000) 100 2 demo_net (demo_net\<lparr>trainable := False\<rparr>)
       = Inr (demo_agent 0 10 2)"
    by (rule demo_agent_init) simp
  show ?thesis using init_fields[OF i]
    by (simp add: epsilon_greedy_policy_def Let_def demo_keras_def demo_net_def argmax_def)
qed


text \<open>
  C7, amended.  With epsilon 1, every draw below 1 takes the random branch and
  the call returns the index drawn by \<open>np.random.choice\<close>.  With epsilon 0, for
  every draw above 0 the call returns the first maximal index of the online
  network's action-values, whatever the draws are; at a draw of exactly 0 it
  returns the random index.
\<close>

theorem epsilon_greedy_boundaries:
  "(epsilon a = 1 \<and> u < 1 \<and> 0 < num_actions a \<longrightarrow>
      snd (epsilon_greedy_policy K a state u c) = Inr c)
   \<and> (epsilon a = 0 \<and> 0 < u \<and> predict K (weights (online_network a)) state \<noteq> [] \<longrightarrow>
      (\<exists>b. snd (epsilon_greedy_policy K a state u c) = Inr b
          \<and> argmax (predict K (weights (online_network a)) state) = Some b
          \<and> b < length (predict K (weights (online_network a)) state)
          \<and> (\<forall>j<length (predict K (weights (online_network a)) state).
                predict K (weights (online_network a)) state ! j
                  \<le> predict K (weights (online_network a)) state ! b)
          \<and> (\<forall>j<b. predict K (weights (online_network a)) state ! j
                  < predict K (weights (online_network a)) state ! b)))
   \<and> (epsilon a = 0 \<and> u = 0 \<and> 0 < num_actions a \<longrightarrow>
      snd (epsilon_greedy_policy K a state u c) = Inr c)"
proof (intro conjI impI)
  assume "epsilon a = 1 \<and> u < 1 \<and> 0 < num_actions a"
  then show "snd (epsilon_greedy_policy K a state u c) = Inr c"
    by (simp add: epsilon_greedy_policy_def Let_def)
next
  assume "epsilon a = 0 \<and> u = 0 \<and> 0 < num_actions a"
  then show "snd (epsilon_greedy_policy K a state u c) = Inr c"
    by (simp add: epsilon_greedy_policy_def Let_def)
next
  let ?q = "predict K (weights (online_network a)) state"
  assume h: "epsilon a = 0 \<and> 0 < u \<and> ?q \<noteq> []"
  then obtain b where b: "argmax ?q = Some b"
    using argmax_None[of ?q] by (cases "argmax ?q") auto
  have "snd (epsilon_greedy_policy K a state u c) = Inr b"
    using h b by (simp add: epsilon_greedy_policy_def Let_def)
  then show "\<exists>b. snd (epsilon_greedy_policy K a state u c) = Inr b
          \<and> argmax ?q = Some b \<and> b < length ?q
          \<and> (\<forall>j<length ?q. ?q ! j \<le> ?q ! b) \<and> (\<forall>j<b. ?q ! j < ?q ! b)"
    using b argmax_Some[OF b] by blast
qed


theorem epsilon_greedy_boundaries_witness:
  "(epsilon (demo_agent 1 10 2) = 1 \<and> (1 / 2 :: real) < 1 \<and> 0 < num_actions (demo_agent 1 10 2)
     \<and> snd (epsilon_greedy_policy demo_keras (demo_agent 1 10 2) 7 (1 / 2) 2) = Inr 2)
   \<and> (epsilon (demo_agent 0 10 2) = 0 \<and> (0 :: real) < 1 / 2
     \<and> predict demo_keras (weights (online_network (demo_agent 0 10 2))) 7 \<noteq> []
     \<and> snd (epsilon_greedy_policy demo_keras (demo_agent 0 10 2) 7 (1 / 2) 2) = Inr 1)
   \<and> (epsilon (demo_agent 0 10 2) = 0 \<and> 0 < num_actions (demo_agent 0 10 2)
     \<and> snd (epsilon_greedy_policy demo_keras (demo_agent 0 10 2) 7 0 2) = Inr 2)"
proof -
  have i1: "DDQNAgent_init 1 3 (1 / 10000) (99 / 100) 1 (1 / 100) 250 (99 / 100)
      10 [256, 256] (1 / 1000000) 100 2 demo_net (demo_net\<lparr>trainable := False\<rparr>)
       = Inr (demo_agent 1 10 2)"
    by (rule demo_agent_init) simp
  have i0: "DDQNAgent_init 1 3 (1 / 10000) (99 / 100) 0 (1 / 100) 250 (99 / 100)
      10 [256, 256] (1 / 1000000) 100 2 demo_net (demo_net\<lparr>trainable := False\<rparr>)
       = Inr (demo_agent 0 10 2)"
    by (rule demo_agent_init) simp
  have q: "predict demo_keras (weights (online_network (demo_agent 0 10 2))) 7 = [1, 5, 2]"
    using init_fields[OF i0] by (simp add: demo_keras_def demo_net_def)
  have h1: "epsilon (demo_agent 1 10 2) = 1 \<and> (1 / 2 :: real) < 1 \<and> 0 < num_actions (demo_agent 1 10 2)"
    using init_fields[OF i1] by simp
  have h2: "epsilon (demo_agent 0 10 2) = 0 \<and> (0 :: real) < 1 / 2
     \<and> predict demo_keras (weights (online_network (demo_agent 0 10 2))) 7 \<noteq> []"
    using init_fields[OF i0] q by simp
  have h3: "epsilon (demo_agent 0 10 2) = 0 \<and> (0::real) = 0 \<and> 0 < num_actions (demo_agent 0 10 2)"
    using init_fields[OF i0] by simp
  have r1: "snd (epsilon_greedy_policy demo_keras (demo_agent 1 10 2) 7 (1 / 2) 2) = Inr 2"
    using epsilon_greedy_boundaries[of "demo_agent 1 10 2" "1 / 2" demo_keras 7 2] h1 by blast
  have r2: "snd (epsilon_greedy_policy demo_keras (demo_agent 0 10 2) 7 (1 / 2) 2) = Inr 1"
    using epsilon_greedy_boundaries[of "demo_agent 0 10 2" "1 / 2" demo_keras 7 2] h2
    by (auto simp: q demo_argmax)
  have r3: "snd (epsilon_greedy_policy demo_keras (demo_agent 0 10 2) 7 0 2) = Inr 2"
    using epsilon_greedy_boundaries[of "demo_agent 0 10 2" 0 demo_keras 7 2] h3 by blast
  show ?thesis using h1 h2 h3 r1 r2 r3 by blast
qed



subsection \<open>The Double-Q targets\<close>

lemma argmax_rows_Inr:
  "argmax_rows qs = Inr bs \<Longrightarrow>
   length bs = length qs \<and> (\<forall>i<length qs. argmax (qs ! i) = Some (bs ! i))"
proof (induction qs arbitrary: bs)
  case Nil
  then show ?case by simp
next
  case (Cons q qs)
  from Cons.prems obtain b bs' where b: "argmax q = Some b"
    and r: "argmax_rows qs = Inr bs'" and bs: "bs = b # bs'"
    by (auto split: option.splits sum.splits)
  from Cons.IH[OF r] show ?case using b bs by (auto simp: nth_Cons split: nat.splits)
qed

lemma argmax_rows_total:
  "\<forall>q\<in>set qs. q \<noteq> [] \<Longrightarrow> \<exists>bs. argmax_rows qs = Inr bs"
proof (induction qs)
  case Nil
  then show ?case by simp
next
  case (Cons q qs)
  then obtain bs where "argmax_rows qs = Inr bs" by auto
  moreover obtain b where "argmax q = Some b"
    using Cons.prems argmax_None[of q] by (cases "argmax q") auto
  ultimately show ?case by simp
qed

lemma gather_nd_Inr:
  "gather_nd params ixs = Inr vs \<Longrightarrow>
   length vs = length ixs \<and> (\<forall>k<length ixs. vs ! k = params ! fst (ixs ! k) ! snd (ixs ! k))"
proof (induction ixs arbitrary: vs)
  case Nil
  then show ?case by simp
next
  case (Cons ij ixs)
  obtain i j where ij: "ij = (i, j)" by (cases ij) auto
  from Cons.prems obtain vs' where r: "gather_nd params ixs = Inr vs'"
    and vs: "vs = params ! i ! j # vs'"
    by (auto simp: ij split: if_splits sum.splits)
  from Cons.IH[OF r] show ?case using vs ij by (auto simp: nth_Cons split: nat.splits)
qed

lemma gather_nd_total:
  "\<forall>ij\<in>set ixs. fst ij < length params \<and> snd ij < length (params ! fst ij) \<Longrightarrow>
   \<exists>vs. gather_nd params ixs = Inr vs"
proof (induction ixs)
  case Nil
  then show ?case by simp
next
  case (Cons ij ixs)
  obtain i j where ij: "ij = (i, j)" by (cases ij) auto
  from Cons obtain vs where "gather_nd params ixs = Inr vs" by auto
  then show ?case using Cons.prems by (simp add: ij)
qed


text \<open>Evaluation of the concrete instances.\<close>

lemma upt_two: "[0 ..< 2] = [0, Suc 0]"
  by (simp add: numeral_2_eq_2)

lemmas demo_eval = upt_two
  demo_agent_def DDQNAgent_init_def update_target_def memorize_all_def memorize_transition_def
  deque_append_def experience_replay_def compute_targets_def demo_keras_def demo_net_def
  argmax_def epsilon_greedy_policy_def learning_update_def run_def Let_def


lemma compute_targets_spec:
  assumes len: "length minibatch = batch_size a"
    and on: "\<forall>(s, act, r, s', nd)\<in>set minibatch.
               length (predict K (weights (online_network a)) s') = num_actions a"
    and tg: "\<forall>(s, act, r, s', nd)\<in>set minibatch.
               length (predict K (weights (target_network a)) s') = num_actions a"
    and na: "0 < num_actions a"
  shows "\<exists>targets. compute_targets K a minibatch = Inr targets
      \<and> length targets = length minibatch
      \<and> (\<forall>i<length minibatch. \<forall>s act r s' nd. minibatch ! i = (s, act, r, s', nd) \<longrightarrow>
           (\<exists>b. argmax (predict K (weights (online_network a)) s') = Some b
               \<and> b < num_actions a
               \<and> (\<forall>j<num_actions a. predict K (weights (online_network a)) s' ! j
                                      \<le> predict K (weights (online_network a)) s' ! b)
               \<and> targets ! i
                   = r + nd * gamma a * (predict K (weights (target_network a)) s' ! b)
               \<and> (nd = 0 \<longrightarrow> targets ! i = r)))"
proof -
  let ?n = "length minibatch"
  let ?rewards = "map (\<lambda>(s, act, r, s_prime, not_done). r) minibatch"
  let ?next = "map (\<lambda>(s, act, r, s_prime, not_done). s_prime) minibatch"
  let ?nd = "map (\<lambda>(s, act, r, s_prime, not_done). not_done) minibatch"
  let ?qon = "map (predict K (weights (online_network a))) ?next"
  let ?qtg = "map (predict K (weights (target_network a))) ?next"
  have lon: "\<forall>i<?n. length (?qon ! i) = num_actions a"
  proof (intro allI impI)
    fix i assume i: "i < ?n"
    then have "minibatch ! i \<in> set minibatch" by simp
    with on show "length (?qon ! i) = num_actions a"
      using i by (cases "minibatch ! i") auto
  qed
  have ltg: "\<forall>i<?n. length (?qtg ! i) = num_actions a"
  proof (intro allI impI)
    fix i assume i: "i < ?n"
    then have "minibatch ! i \<in> set minibatch" by simp
    with tg show "length (?qtg ! i) = num_actions a"
      using i by (cases "minibatch ! i") auto
  qed
  have "\<forall>q\<in>set ?qon. q \<noteq> []"
  proof
    fix q assume "q \<in> set ?qon"
    then obtain i where "i < ?n" "q = ?qon ! i"
      by (metis in_set_conv_nth length_map)
    with lon na show "q \<noteq> []" by auto
  qed
  from argmax_rows_total[OF this] obtain best where best: "argmax_rows ?qon = Inr best" ..
  from argmax_rows_Inr[OF best]
  have lbest: "length best = ?n" and abest: "\<forall>i<?n. argmax (?qon ! i) = Some (best ! i)"
    by simp_all
  have bnd: "\<forall>i<?n. best ! i < num_actions a"
    using abest lon argmax_Some by metis
  let ?ixs = "zip [0 ..< batch_size a] best"
  have lix: "length ?ixs = ?n" using len lbest by simp
  have ix: "\<forall>k<?n. ?ixs ! k = (k, best ! k)" using len lbest by simp
  have "\<forall>ij\<in>set ?ixs. fst ij < length ?qtg \<and> snd ij < length (?qtg ! fst ij)"
  proof
    fix ij assume "ij \<in> set ?ixs"
    then obtain k where k: "k < ?n" and "ij = ?ixs ! k"
      using lix by (metis in_set_conv_nth)
    then have "ij = (k, best ! k)" using ix by simp
    then show "fst ij < length ?qtg \<and> snd ij < length (?qtg ! fst ij)"
      using k bnd ltg by simp
  qed
  from gather_nd_total[OF this] obtain tq where tq: "gather_nd ?qtg ?ixs = Inr tq" ..
  have ltq: "length tq = ?n" using gather_nd_Inr[OF tq] lix by (simp only:)
  have vtq: "\<forall>k<?n. tq ! k = ?qtg ! k ! (best ! k)"
  proof (intro allI impI)
    fix k assume k: "k < ?n"
    have e: "?ixs ! k = (k, best ! k)" using ix k by blast
    have "k < length ?ixs" using k lix by (simp only:)
    with gather_nd_Inr[OF tq] have "tq ! k = ?qtg ! fst (?ixs ! k) ! snd (?ixs ! k)" by blast
    then show "tq ! k = ?qtg ! k ! (best ! k)" by (simp only: e fst_conv snd_conv)
  qed
  let ?targets = "map (\<lambda>(r, nd, tq). r + nd * gamma a * tq) (zip ?rewards (zip ?nd tq))"
  have ct: "compute_targets K a minibatch = Inr ?targets"
    by (simp only: compute_targets_def Let_def best tq sum.case)
  have lt: "length ?targets = ?n" using ltq by simp
  have main: "\<forall>i<?n. \<forall>s act r s' nd. minibatch ! i = (s, act, r, s', nd) \<longrightarrow>
           (\<exists>b. argmax (predict K (weights (online_network a)) s') = Some b
               \<and> b < num_actions a
               \<and> (\<forall>j<num_actions a. predict K (weights (online_network a)) s' ! j
                                      \<le> predict K (weights (online_network a)) s' ! b)
               \<and> ?targets ! i
                   = r + nd * gamma a * (predict K (weights (target_network a)) s' ! b)
               \<and> (nd = 0 \<longrightarrow> ?targets ! i = r))"
  proof (intro allI impI)
    fix i s act r s' nd
    assume i: "i < ?n" and m: "minibatch ! i = (s, act, r, s', nd)"
    have qon: "?qon ! i = predict K (weights (online_network a)) s'" using i m by simp
    have qtg: "?qtg ! i = predict K (weights (target_network a)) s'" using i m by simp
    have "argmax (?qon ! i) = Some (best ! i)" using abest i by blast
    then have am: "argmax (predict K (weights (online_network a)) s') = Some (best ! i)"
      by (simp only: qon)
    have "length (?qon ! i) = num_actions a" using lon i by blast
    then have l: "length (predict K (weights (online_network a)) s') = num_actions a"
      by (simp only: qon)
    have mx: "\<forall>j<num_actions a. predict K (weights (online_network a)) s' ! j
                \<le> predict K (weights (online_network a)) s' ! (best ! i)"
      using argmax_Some[OF am] l by simp
    have t: "?targets ! i = r + nd * gamma a * (tq ! i)"
      using i m ltq by simp
    have "tq ! i = ?qtg ! i ! (best ! i)" using vtq i by blast
    then have "tq ! i = predict K (weights (target_network a)) s' ! (best ! i)"
      by (simp only: qtg)
    with t have t': "?targets ! i
        = r + nd * gamma a * (predict K (weights (target_network a)) s' ! (best ! i))"
      by (simp only:)
    show "\<exists>b. argmax (predict K (weights (online_network a)) s') = Some b
               \<and> b < num_actions a
               \<and> (\<forall>j<num_actions a. predict K (weights (online_network a)) s' ! j
                                      \<le> predict K (weights (online_network a)) s' ! b)
               \<and> ?targets ! i
                   = r + nd * gamma a * (predict K (weights (target_network a)) s' ! b)
               \<and> (nd = 0 \<longrightarrow> ?targets ! i = r)"
      using am bnd i mx t' by (intro exI[of _ "best ! i"]) simp
  qed
  show ?thesis using ct lt main by blast
qed

lemma set_targets_rows:
  "length acts = length ts \<Longrightarrow> k + length acts = length q \<Longrightarrow>
   \<forall>j<length acts. acts ! j < length (q ! (k + j)) \<Longrightarrow>
   set_targets q (zip [k ..< k + length acts] (zip acts ts))
     = Inr (take k q @ map (\<lambda>(row, act, t). row[act := t]) (zip (drop k q) (zip acts ts)))"
proof (induction acts arbitrary: ts k q)
  case Nil
  then show ?case by simp
next
  case (Cons a acts)
  from Cons.prems(1) obtain t ts' where ts: "ts = t # ts'" and l: "length acts = length ts'"
    by (cases ts) auto
  let ?q = "q[k := (q ! k)[a := t]]"
  have kq: "k < length q" using Cons.prems(2) by simp
  have ak: "a < length (q ! k)" using Cons.prems(3)[rule_format, of 0] by simp
  have u: "[k ..< k + length (a # acts)] = k # [Suc k ..< Suc k + length acts]"
    by (subst upt_rec) simp
  have p2: "Suc k + length acts = length ?q" using Cons.prems(2) by simp
  have p3: "\<forall>j<length acts. acts ! j < length (?q ! (Suc k + j))"
  proof (intro allI impI)
    fix j assume j: "j < length acts"
    then have "Suc j < length (a # acts)" by simp
    from Cons.prems(3)[rule_format, OF this] have "acts ! j < length (q ! (k + Suc j))" by simp
    then show "acts ! j < length (?q ! (Suc k + j))" by simp
  qed
  have IH: "set_targets ?q (zip [Suc k ..< Suc k + length acts] (zip acts ts'))
     = Inr (take (Suc k) ?q
            @ map (\<lambda>(row, act, t). row[act := t]) (zip (drop (Suc k) ?q) (zip acts ts')))"
    by (rule Cons.IH[OF l p2 p3])
  have t1: "take (Suc k) ?q = take k q @ [(q ! k)[a := t]]"
    using kq by (simp add: take_Suc_conv_app_nth)
  have d1: "drop (Suc k) ?q = drop (Suc k) q" by simp
  have d2: "drop k q = q ! k # drop (Suc k) q" using kq by (simp add: Cons_nth_drop_Suc)
  have "set_targets q (zip [k ..< k + length (a # acts)] (zip (a # acts) ts))
      = set_targets ?q (zip [Suc k ..< Suc k + length acts] (zip acts ts'))"
    unfolding u ts using kq ak by simp
  also have "\<dots> = Inr (take k q @ [(q ! k)[a := t]]
            @ map (\<lambda>(row, act, t). row[act := t]) (zip (drop (Suc k) q) (zip acts ts')))"
    unfolding IH t1 d1 by simp
  also have "\<dots> = Inr (take k q @ map (\<lambda>(row, act, t). row[act := t])
                         (zip (drop k q) (zip (a # acts) ts)))"
    unfolding d2 ts by simp
  finally show ?case .
qed

lemma set_targets_all:
  assumes "length acts = length q" and "length ts = length q"
    and "\<forall>j<length q. acts ! j < length (q ! j)"
  shows "set_targets q (zip [0 ..< length q] (zip acts ts))
     = Inr (map (\<lambda>(row, act, t). row[act := t]) (zip q (zip acts ts)))"
  using set_targets_rows[of acts ts 0 q] assms by simp

lemma experience_replay_trains:
  assumes enough: "batch_size a \<le> length (experience a)"
    and ne: "minibatch \<noteq> []"
    and ct: "compute_targets K a minibatch = Inr targets"
    and st: "set_targets (map (predict K (weights (online_network a)))
                            (map (\<lambda>(s, act, r, s_prime, not_done). s) minibatch))
               (zip [0 ..< batch_size a]
                    (zip (map (\<lambda>(s, act, r, s_prime, not_done). act) minibatch) targets))
             = Inr y"
  shows "online_network (fst (experience_replay K a minibatch))
          = fst (train_on_batch K (online_network a)
                   (map (\<lambda>(s, act, r, s_prime, not_done). s) minibatch) y)
       \<and> losses (fst (experience_replay K a minibatch))
          = losses a @ [snd (train_on_batch K (online_network a)
                   (map (\<lambda>(s, act, r, s_prime, not_done). s) minibatch) y)]"
proof -
  let ?states = "map (\<lambda>(s, act, r, s_prime, not_done). s) minibatch"
  obtain net' loss where tr: "train_on_batch K (online_network a) ?states y = (net', loss)"
    by (cases "train_on_batch K (online_network a) ?states y") auto
  let ?a2 = "a\<lparr>online_network := net', losses := losses a @ [loss]\<rparr>"
  have g: "\<not> length (experience a) < batch_size a" using enough by simp
  have er: "experience_replay K a minibatch
      = (if tau a = 0 then (?a2, Some ZeroDivisionError)
         else if total_steps a mod tau a = 0 then (update_target ?a2, None)
         else (?a2, None))"
    unfolding experience_replay_def Let_def
    by (simp only: g ne if_False ct st sum.case tr prod.case agent.simps)
      (simp add: update_target_def)
  show ?thesis unfolding er tr by (simp add: update_target_def)
qed

text \<open>
  C1.  In a learning update (the buffer holds at least \<open>batch_size\<close>
  transitions, the mini-batch has \<open>batch_size\<close> samples, the networks have
  \<open>num_actions\<close> outputs and the recorded actions are below \<open>num_actions\<close>),
  the targets are computed, one per sample, and the target of the sample
  \<open>(s, a, r, s', not_done)\<close> is \<open>r + not_done * gamma * Q_target(s')[b]\<close>,
  where \<open>b\<close> is the argmax of the online network's action-values on \<open>s'\<close>:
  the action is selected by the online network and valued by the target
  network.  At \<open>not_done = 0\<close> the target is the reward alone.  The
  regression matrix that \<open>experience_replay\<close> hands to \<open>train_on_batch\<close>
  has, in the row of each sample, that target at the action taken and the
  online network's own predictions elsewhere; the online network and the loss
  recorded by the call are the result of that training step.
\<close>

theorem double_q_regression_targets:
  assumes enough: "batch_size a \<le> length (experience a)"
    and len: "length minibatch = batch_size a"
    and ne: "minibatch \<noteq> []"
    and net: "\<forall>(s, act, r, s', nd)\<in>set minibatch.
               length (predict K (weights (online_network a)) s) = num_actions a
             \<and> length (predict K (weights (online_network a)) s') = num_actions a
             \<and> length (predict K (weights (target_network a)) s') = num_actions a
             \<and> act < num_actions a"
  shows "\<exists>targets y.
        compute_targets K a minibatch = Inr targets
      \<and> length targets = length minibatch \<and> length y = length minibatch
      \<and> (\<forall>i<length minibatch. \<forall>s act r s' nd. minibatch ! i = (s, act, r, s', nd) \<longrightarrow>
           (\<exists>b. argmax (predict K (weights (online_network a)) s') = Some b
               \<and> b < num_actions a
               \<and> (\<forall>j<num_actions a. predict K (weights (online_network a)) s' ! j
                                      \<le> predict K (weights (online_network a)) s' ! b)
               \<and> targets ! i
                   = r + nd * gamma a * (predict K (weights (target_network a)) s' ! b)
               \<and> (nd = 0 \<longrightarrow> targets ! i = r)
               \<and> y ! i = (predict K (weights (online_network a)) s)[act := targets ! i]))
      \<and> online_network (fst (experience_replay K a minibatch))
          = fst (train_on_batch K (online_network a)
                   (map (\<lambda>(s, act, r, s_prime, not_done). s) minibatch) y)
      \<and> losses (fst (experience_replay K a minibatch))
          = losses a @ [snd (train_on_batch K (online_network a)
                   (map (\<lambda>(s, act, r, s_prime, not_done). s) minibatch) y)]"
proof -
  let ?n = "length minibatch"
  let ?states = "map (\<lambda>(s, act, r, s_prime, not_done). s) minibatch"
  let ?actions = "map (\<lambda>(s, act, r, s_prime, not_done). act) minibatch"
  let ?q = "map (predict K (weights (online_network a))) ?states"
  have each: "\<And>i s act r s' nd. i < ?n \<Longrightarrow> minibatch ! i = (s, act, r, s', nd) \<Longrightarrow>
               length (predict K (weights (online_network a)) s) = num_actions a
             \<and> length (predict K (weights (online_network a)) s') = num_actions a
             \<and> length (predict K (weights (target_network a)) s') = num_actions a
             \<and> act < num_actions a"
  proof -
    fix i s act r s' nd
    assume "i < ?n" and m: "minibatch ! i = (s, act, r, s', nd)"
    then have "(s, act, r, s', nd) \<in> set minibatch" by (metis nth_mem)
    with net show "length (predict K (weights (online_network a)) s) = num_actions a
             \<and> length (predict K (weights (online_network a)) s') = num_actions a
             \<and> length (predict K (weights (target_network a)) s') = num_actions a
             \<and> act < num_actions a"
      by fastforce
  qed
  have on: "\<forall>(s, act, r, s', nd)\<in>set minibatch.
               length (predict K (weights (online_network a)) s') = num_actions a"
    using net by fastforce
  have tg: "\<forall>(s, act, r, s', nd)\<in>set minibatch.
               length (predict K (weights (target_network a)) s') = num_actions a"
    using net by fastforce
  have na: "0 < num_actions a"
  proof -
    have "0 < ?n" using ne by simp
    obtain s act r s' nd where "minibatch ! 0 = (s, act, r, s', nd)"
      by (cases "minibatch ! 0") auto
    from each[OF \<open>0 < ?n\<close> this] show ?thesis by simp
  qed
  from compute_targets_spec[OF len on tg na] obtain targets where
    T: "compute_targets K a minibatch = Inr targets
      \<and> length targets = length minibatch
      \<and> (\<forall>i<length minibatch. \<forall>s act r s' nd. minibatch ! i = (s, act, r, s', nd) \<longrightarrow>
           (\<exists>b. argmax (predict K (weights (online_network a)) s') = Some b
               \<and> b < num_actions a
               \<and> (\<forall>j<num_actions a. predict K (weights (online_network a)) s' ! j
                                      \<le> predict K (weights (online_network a)) s' ! b)
               \<and> targets ! i
                   = r + nd * gamma a * (predict K (weights (target_network a)) s' ! b)
               \<and> (nd = 0 \<longrightarrow> targets ! i = r)))" ..
  note ct = T[THEN conjunct1]
  note lt = T[THEN conjunct2, THEN conjunct1]
  note tv = T[THEN conjunct2, THEN conjunct2, rule_format]
  define y where "y = map (\<lambda>(row, act, t). row[act := t]) (zip ?q (zip ?actions targets))"
  have lq: "length ?q = ?n" by simp
  have la: "length ?actions = length ?q" by simp
  have ltq: "length targets = length ?q" using lt by simp
  have bound: "\<forall>j<length ?q. ?actions ! j < length (?q ! j)"
  proof (intro allI impI)
    fix j assume "j < length ?q"
    then have j: "j < ?n" by simp
    obtain s act r s' nd where m: "minibatch ! j = (s, act, r, s', nd)"
      by (cases "minibatch ! j") auto
    from each[OF j m] show "?actions ! j < length (?q ! j)" using j m by simp
  qed
  have "set_targets ?q (zip [0 ..< length ?q] (zip ?actions targets)) = Inr y"
    unfolding y_def by (rule set_targets_all[OF la ltq bound])
  then have st: "set_targets ?q (zip [0 ..< batch_size a] (zip ?actions targets)) = Inr y"
    unfolding lq len .
  note er = experience_replay_trains[OF enough ne ct st]
  have ly: "length y = ?n" using lt by (simp add: y_def)
  have yv: "\<And>i s act r s' nd. i < ?n \<Longrightarrow> minibatch ! i = (s, act, r, s', nd) \<Longrightarrow>
      y ! i = (predict K (weights (online_network a)) s)[act := targets ! i]"
    using lt by (simp add: y_def)
  have main: "\<forall>i<length minibatch. \<forall>s act r s' nd. minibatch ! i = (s, act, r, s', nd) \<longrightarrow>
           (\<exists>b. argmax (predict K (weights (online_network a)) s') = Some b
               \<and> b < num_actions a
               \<and> (\<forall>j<num_actions a. predict K (weights (online_network a)) s' ! j
                                      \<le> predict K (weights (online_network a)) s' ! b)
               \<and> targets ! i
                   = r + nd * gamma a * (predict K (weights (target_network a)) s' ! b)
               \<and> (nd = 0 \<longrightarrow> targets ! i = r)
               \<and> y ! i = (predict K (weights (online_network a)) s)[act := targets ! i])"
  proof (intro allI impI)
    fix i s act r s' nd
    assume i: "i < ?n" and m: "minibatch ! i = (s, act, r, s', nd)"
    from tv[OF i m] obtain b where
      b: "argmax (predict K (weights (online_network a)) s') = Some b
               \<and> b < num_actions a
               \<and> (\<forall>j<num_actions a. predict K (weights (online_network a)) s' ! j
                                      \<le> predict K (weights (online_network a)) s' ! b)
               \<and> targets ! i
                   = r + nd * gamma a * (predict K (weights (target_network a)) s' ! b)
               \<and> (nd = 0 \<longrightarrow> targets ! i = r)" ..
    show "\<exists>b. argmax (predict K (weights (online_network a)) s') = Some b
               \<and> b < num_actions a
               \<and> (\<forall>j<num_actions a. predict K (weights (online_network a)) s' ! j
                                      \<le> predict K (weights (online_network a)) s' ! b)
               \<and> targets ! i
                   = r + nd * gamma a * (predict K (weights (target_network a)) s' ! b)
               \<and> (nd = 0 \<longrightarrow> targets ! i = r)
               \<and> y ! i = (predict K (weights (online_network a)) s)[act := targets ! i]"
      using b yv[OF i m] by (intro exI[of _ b]) simp
  qed
  have "compute_targets K a minibatch = Inr targets
      \<and> length targets = length minibatch \<and> length y = length minibatch
      \<and> (\<forall>i<length minibatch. \<forall>s act r s' nd. minibatch ! i = (s, act, r, s', nd) \<longrightarrow>
           (\<exists>b. argmax (predict K (weights (online_network a)) s') = Some b
               \<and> b < num_actions a
               \<and> (\<forall>j<num_actions a. predict K (weights (online_network a)) s' ! j
                                      \<le> predict K (weights (online_network a)) s' ! b)
               \<and> targets ! i
                   = r + nd * gamma a * (predict K (weights (target_network a)) s' ! b)
               \<and> (nd = 0 \<longrightarrow> targets ! i = r)
               \<and> y ! i = (predict K (weights (online_network a)) s)[act := targets ! i]))
      \<and> online_network (fst (experience_replay K a minibatch))
          = fst (train_on_batch K (online_network a) ?states y)
      \<and> losses (fst (experience_replay K a minibatch))
          = losses a @ [snd (train_on_batch K (online_network a) ?states y)]"
    by (intro conjI; (rule ct lt ly main er[THEN conjunct1] er[THEN conjunct2]))
  then show ?thesis by (intro exI[of _ targets] exI[of _ y])
qed

theorem double_q_regression_targets_witness:
  "batch_size (run demo_keras_y (demo_agent 1 10 2)
        [Act 10 (1 / 2) 0, Memorize (10, 0, 3, 11, 1), Act 11 (1 / 2) 2,
         Memorize (11, 2, 4, 12, 0), Replay [(10, 0, 3, 11, 1), (11, 2, 4, 12, 0)]])
     \<le> length (experience (run demo_keras_y (demo_agent 1 10 2)
        [Act 10 (1 / 2) 0, Memorize (10, 0, 3, 11, 1), Act 11 (1 / 2) 2,
         Memorize (11, 2, 4, 12, 0), Replay [(10, 0, 3, 11, 1), (11, 2, 4, 12, 0)]]))
   \<and> length [(10::nat, 0::nat, 3::real, 11::nat, 1::real), (11, 2, 4, 12, 0)]
     = batch_size (run demo_keras_y (demo_agent 1 10 2)
        [Act 10 (1 / 2) 0, Memorize (10, 0, 3, 11, 1), Act 11 (1 / 2) 2,
         Memorize (11, 2, 4, 12, 0), Replay [(10, 0, 3, 11, 1), (11, 2, 4, 12, 0)]])
   \<and> predict demo_keras_y (weights (online_network (run demo_keras_y (demo_agent 1 10 2)
        [Act 10 (1 / 2) 0, Memorize (10, 0, 3, 11, 1), Act 11 (1 / 2) 2,
         Memorize (11, 2, 4, 12, 0), Replay [(10, 0, 3, 11, 1), (11, 2, 4, 12, 0)]]))) 11
       = [7, 0, 3]
   \<and> predict demo_keras_y (weights (target_network (run demo_keras_y (demo_agent 1 10 2)
        [Act 10 (1 / 2) 0, Memorize (10, 0, 3, 11, 1), Act 11 (1 / 2) 2,
         Memorize (11, 2, 4, 12, 0), Replay [(10, 0, 3, 11, 1), (11, 2, 4, 12, 0)]]))) 11
       = [1, 5, 2]
   \<and> compute_targets demo_keras_y (run demo_keras_y (demo_agent 1 10 2)
        [Act 10 (1 / 2) 0, Memorize (10, 0, 3, 11, 1), Act 11 (1 / 2) 2,
         Memorize (11, 2, 4, 12, 0), Replay [(10, 0, 3, 11, 1), (11, 2, 4, 12, 0)]])
        [(10, 0, 3, 11, 1), (11, 2, 4, 12, 0)]
       = Inr [399 / 100, 4]
   \<and> losses (fst (experience_replay demo_keras_y (run demo_keras_y (demo_agent 1 10 2)
        [Act 10 (1 / 2) 0, Memorize (10, 0, 3, 11, 1), Act 11 (1 / 2) 2,
         Memorize (11, 2, 4, 12, 0), Replay [(10, 0, 3, 11, 1), (11, 2, 4, 12, 0)]])
        [(10, 0, 3, 11, 1), (11, 2, 4, 12, 0)]))
       = losses (run demo_keras_y (demo_agent 1 10 2)
        [Act 10 (1 / 2) 0, Memorize (10, 0, 3, 11, 1), Act 11 (1 / 2) 2,
         Memorize (11, 2, 4, 12, 0), Replay [(10, 0, 3, 11, 1), (11, 2, 4, 12, 0)]])
         @ [sum_list (concat [[399 / 100, 0, 3], [7, 0, 4]])]"
proof -
  define mb where "mb = [(10::nat, 0::nat, 3::real, 11::nat, 1::real), (11, 2, 4, 12, 0)]"
  define A where "A = run demo_keras_y (demo_agent 1 10 2)
        [Act 10 (1 / 2) 0, Memorize (10, 0, 3, 11, 1), Act 11 (1 / 2) 2,
         Memorize (11, 2, 4, 12, 0), Replay [(10, 0, 3, 11, 1), (11, 2, 4, 12, 0)]]"
  have bs: "batch_size A = 2" and na: "num_actions A = 3" and g: "gamma A = 99 / 100"
    and wo: "weights (online_network A) = 1" and wt: "weights (target_network A) = 0"
    and le: "length (experience A) = 2"
    by (simp_all add: A_def demo_eval demo_keras_y_def)
  have po: "\<And>s. predict demo_keras_y (weights (online_network A)) s = [7, 0, 3]"
    and pt: "\<And>s. predict demo_keras_y (weights (target_network A)) s = [1, 5, 2]"
    unfolding wo wt by (simp_all add: demo_keras_y_def)
  have h0: "batch_size A \<le> length (experience A)" unfolding bs le by simp
  have h1: "length mb = batch_size A" unfolding bs by (simp add: mb_def)
  have h2: "mb \<noteq> []" by (simp add: mb_def)
  have h3: "\<forall>(s, act, r, s', nd)\<in>set mb.
               length (predict demo_keras_y (weights (online_network A)) s) = num_actions A
             \<and> length (predict demo_keras_y (weights (online_network A)) s') = num_actions A
             \<and> length (predict demo_keras_y (weights (target_network A)) s') = num_actions A
             \<and> act < num_actions A"
    unfolding po pt na by (simp add: mb_def)
  let ?states = "map (\<lambda>(s, act, r, s_prime, not_done). s) mb"
  from double_q_regression_targets[OF h0 h1 h2 h3] obtain targets y where
    T: "compute_targets demo_keras_y A mb = Inr targets
      \<and> length targets = length mb \<and> length y = length mb
      \<and> (\<forall>i<length mb. \<forall>s act r s' nd. mb ! i = (s, act, r, s', nd) \<longrightarrow>
           (\<exists>b. argmax (predict demo_keras_y (weights (online_network A)) s') = Some b
               \<and> b < num_actions A
               \<and> (\<forall>j<num_actions A. predict demo_keras_y (weights (online_network A)) s' ! j
                                      \<le> predict demo_keras_y (weights (online_network A)) s' ! b)
               \<and> targets ! i
                   = r + nd * gamma A * (predict demo_keras_y (weights (target_network A)) s' ! b)
               \<and> (nd = 0 \<longrightarrow> targets ! i = r)
               \<and> y ! i = (predict demo_keras_y (weights (online_network A)) s)[act := targets ! i]))
      \<and> online_network (fst (experience_replay demo_keras_y A mb))
          = fst (train_on_batch demo_keras_y (online_network A) ?states y)
      \<and> losses (fst (experience_replay demo_keras_y A mb))
          = losses A @ [snd (train_on_batch demo_keras_y (online_network A) ?states y)]"
    by (elim exE)
  note ct = T[THEN conjunct1]
  note len = T[THEN conjunct2, THEN conjunct1]
  note ly = T[THEN conjunct2, THEN conjunct2, THEN conjunct1]
  note each = T[THEN conjunct2, THEN conjunct2, THEN conjunct2, THEN conjunct1, rule_format]
  note ls = T[THEN conjunct2, THEN conjunct2, THEN conjunct2, THEN conjunct2, THEN conjunct2]
  have am: "argmax [7, 0, 3] = Some 0" by (simp add: argmax_def)
  have l2: "length mb = 2" by (simp add: mb_def)
  have i0: "0 < length mb" and i1: "1 < length mb" by (simp_all add: l2)
  have m0: "mb ! 0 = (10, 0, 3, 11, 1)" and m1: "mb ! 1 = (11, 2, 4, 12, 0)"
    by (simp_all add: mb_def)
  from each[OF i0 m0] obtain b0 where
    b0: "argmax (predict demo_keras_y (weights (online_network A)) 11) = Some b0"
    and t0: "targets ! 0
      = 3 + 1 * gamma A * (predict demo_keras_y (weights (target_network A)) 11 ! b0)"
    and y0: "y ! 0 = (predict demo_keras_y (weights (online_network A)) 10)[0 := targets ! 0]"
    by (elim exE conjE)
  have "b0 = 0" using b0 unfolding po am by simp
  then have e0: "targets ! 0 = 399 / 100" using t0 unfolding pt g by simp
  from each[OF i1 m1] obtain b1 where
    e1': "0 = (0::real) \<longrightarrow> targets ! 1 = 4"
    and y1: "y ! 1 = (predict demo_keras_y (weights (online_network A)) 11)[2 := targets ! 1]"
    by (elim exE conjE)
  have e1: "targets ! 1 = 4" using e1' by simp
  have tl: "targets = [399 / 100, 4]"
  proof (rule nth_equalityI)
    show "length targets = length [399 / 100, 4 :: real]" using len l2 by simp
  next
    fix i assume "i < length targets"
    then have "i = 0 \<or> i = 1" using len l2 by auto
    then show "targets ! i = [399 / 100, 4] ! i" using e0 e1 by auto
  qed
  have y0': "y ! 0 = [399 / 100, 0, 3]" using y0 unfolding po e0 by simp
  have y1': "y ! 1 = [7, 0, 4]" using y1 unfolding po e1 by simp
  have yl: "y = [[399 / 100, 0, 3], [7, 0, 4]]"
  proof (rule nth_equalityI)
    show "length y = length [[399 / 100, 0, 3], [7, 0, 4 :: real]]" using ly l2 by simp
  next
    fix i assume "i < length y"
    then have "i = 0 \<or> i = 1" using ly l2 by auto
    then show "y ! i = [[399 / 100, 0, 3], [7, 0, 4]] ! i" using y0' y1' by auto
  qed
  have tr: "snd (train_on_batch demo_keras_y (online_network A) ?states y) = sum_list (concat y)"
    by (simp add: demo_keras_y_def)
  have r1: "compute_targets demo_keras_y A mb = Inr [399 / 100, 4]" using ct tl by simp
  have r2: "losses (fst (experience_replay demo_keras_y A mb))
      = losses A @ [sum_list (concat [[399 / 100, 0, 3], [7, 0, 4]])]"
    using ls[unfolded tr] unfolding yl .
  have "batch_size A \<le> length (experience A) \<and> length mb = batch_size A
    \<and> predict demo_keras_y (weights (online_network A)) 11 = [7, 0, 3]
    \<and> predict demo_keras_y (weights (target_network A)) 11 = [1, 5, 2]
    \<and> compute_targets demo_keras_y A mb = Inr [399 / 100, 4]
    \<and> losses (fst (experience_replay demo_keras_y A mb))
      = losses A @ [sum_list (concat [[399 / 100, 0, 3], [7, 0, 4]])]"
    by (intro conjI; (rule h0 h1 po pt r1 r2))
  then show ?thesis unfolding A_def mb_def .
qed

subsection \<open>Synchronisation of the target network\<close>

lemma experience_replay_cases:
  "(\<exists>e. experience_replay K a mb = (a, e) \<and> \<not> learning_update K a mb)
   \<or> (\<exists>net' loss. learning_update K a mb \<and>
        experience_replay K a mb =
          (let a2 = a\<lparr>online_network := net', losses := losses a @ [loss]\<rparr>
           in if tau a = 0 then (a2, Some ZeroDivisionError)
              else if total_steps a mod tau a = 0 then (update_target a2, None)
              else (a2, None)))"
  unfolding learning_update_def experience_replay_def
  by (auto simp: Let_def update_target_def split: sum.splits prod.splits)

lemma replay_target_network:
  "target_network (fst (experience_replay K a mb))
     = (if sync_point K a (Replay mb)
        then (target_network a)\<lparr>weights := weights (online_network (fst (experience_replay K a mb)))\<rparr>
        else target_network a)"
  using experience_replay_cases[of K a mb]
  by (auto simp: Let_def update_target_def)

lemma step_target_network:
  "\<not> sync_point K a c \<Longrightarrow> target_network (step K a c) = target_network a"
proof (cases c)
  case (Act state u c')
  then show ?thesis by (simp add: epsilon_greedy_policy_def Let_def)
next
  case (Memorize t)
  then show ?thesis by (cases t) (simp add: memorize_transition_frame)
next
  case (Replay mb)
  assume "\<not> sync_point K a c"
  then have "\<not> sync_point K a (Replay mb)" using Replay by simp
  then have "target_network (fst (experience_replay K a mb)) = target_network a"
    by (simp only: replay_target_network[of K a mb] if_False)
  then show ?thesis using Replay by simp
qed

lemma run_Nil: "run K a [] = a"
  by (simp add: run_def)

lemma run_Cons: "run K a (c # cs) = run K (step K a c) cs"
  by (simp add: run_def)

lemma no_sync_target_network:
  "no_sync K a cs \<Longrightarrow> target_network (run K a cs) = target_network a"
proof (induction cs arbitrary: a)
  case Nil
  then show ?case by (simp add: run_Nil)
next
  case (Cons c cs)
  then have "target_network (run K (step K a c) cs) = target_network (step K a c)" by simp
  then show ?case using Cons.prems by (simp add: run_Cons step_target_network)
qed


text \<open>
  C3.  A replay call that performs a learning update while \<open>total_steps\<close> is
  divisible by \<open>tau\<close> leaves the target network with the weights the online
  network has after that update.  Every other call leaves the target network
  as it was, and so does every sequence of calls without such a
  synchronisation point, whatever the learning steps in it do to the online
  network.
\<close>

theorem target_network_sync:
  "(sync_point K a (Replay mb) \<longrightarrow>
      weights (target_network (step K a (Replay mb)))
        = weights (online_network (step K a (Replay mb))))
   \<and> (\<not> sync_point K a c \<longrightarrow> target_network (step K a c) = target_network a)
   \<and> (no_sync K a cs \<longrightarrow> target_network (run K a cs) = target_network a)"
  using replay_target_network[of K a mb] step_target_network[of K a c]
    no_sync_target_network[of K a cs]
  by simp

theorem target_network_sync_witness:
  "sync_point demo_keras
      (memorize_all (demo_agent 1 10 2) [(10, 0, 3, 11, 1), (11, 2, 4, 12, 0)])
      (Replay [(10, 0, 3, 11, 1), (11, 2, 4, 12, 0)])
   \<and> weights (online_network (step demo_keras
        (memorize_all (demo_agent 1 10 2) [(10, 0, 3, 11, 1), (11, 2, 4, 12, 0)])
        (Replay [(10, 0, 3, 11, 1), (11, 2, 4, 12, 0)]))) = 1
   \<and> weights (target_network (step demo_keras
        (memorize_all (demo_agent 1 10 2) [(10, 0, 3, 11, 1), (11, 2, 4, 12, 0)])
        (Replay [(10, 0, 3, 11, 1), (11, 2, 4, 12, 0)]))) = 1
   \<and> \<not> sync_point demo_keras
        (run demo_keras (demo_agent 1 10 2)
           [Act 10 (1 / 2) 0, Memorize (10, 0, 3, 11, 1), Act 11 (1 / 2) 2,
            Memorize (11, 2, 4, 12, 0)])
        (Replay [(10, 0, 3, 11, 1), (11, 2, 4, 12, 0)])
   \<and> weights (online_network (step demo_keras
        (run demo_keras (demo_agent 1 10 2)
           [Act 10 (1 / 2) 0, Memorize (10, 0, 3, 11, 1), Act 11 (1 / 2) 2,
            Memorize (11, 2, 4, 12, 0)])
        (Replay [(10, 0, 3, 11, 1), (11, 2, 4, 12, 0)]))) = 1
   \<and> weights (target_network (step demo_keras
        (run demo_keras (demo_agent 1 10 2)
           [Act 10 (1 / 2) 0, Memorize (10, 0, 3, 11, 1), Act 11 (1 / 2) 2,
            Memorize (11, 2, 4, 12, 0)])
        (Replay [(10, 0, 3, 11, 1), (11, 2, 4, 12, 0)]))) = 0
   \<and> no_sync demo_keras (demo_agent 1 10 2)
        [Act 10 (1 / 2) 0, Memorize (10, 0, 3, 11, 1), Act 11 (1 / 2) 2,
         Memorize (11, 2, 4, 12, 0), Replay [(10, 0, 3, 11, 1), (11, 2, 4, 12, 0)]]
   \<and> weights (online_network (run demo_keras (demo_agent 1 10 2)
        [Act 10 (1 / 2) 0, Memorize (10, 0, 3, 11, 1), Act 11 (1 / 2) 2,
         Memorize (11, 2, 4, 12, 0), Replay [(10, 0, 3, 11, 1), (11, 2, 4, 12, 0)]])) = 1
   \<and> weights (target_network (run demo_keras (demo_agent 1 10 2)
        [Act 10 (1 / 2) 0, Memorize (10, 0, 3, 11, 1), Act 11 (1 / 2) 2,
         Memorize (11, 2, 4, 12, 0), Replay [(10, 0, 3, 11, 1), (11, 2, 4, 12, 0)]])) = 0"
proof -
  let ?D = "demo_agent 1 10 2"
  let ?mb = "[(10::nat, 0::nat, 3::real, 11::nat, 1::real), (11, 2, 4, 12, 0)]"
  let ?A = "memorize_all ?D ?mb"
  let ?pre = "[Act 10 (1 / 2) 0, Memorize (10, 0, 3, 11, 1), Act 11 (1 / 2) 2,
               Memorize (11::nat, 2, 4, 12, 0)]"
  let ?B = "run demo_keras ?D ?pre"
  let ?cs = "?pre @ [Replay ?mb]"
  have s1: "sync_point demo_keras ?A (Replay ?mb)" by (simp add: demo_eval)
  have o1: "weights (online_network (step demo_keras ?A (Replay ?mb))) = 1"
    by (simp add: demo_eval)
  have t1: "weights (target_network (step demo_keras ?A (Replay ?mb))) = 1"
    using target_network_sync[of demo_keras ?A ?mb "Replay ?mb" "[]"] s1 o1 by simp
  have s2: "\<not> sync_point demo_keras ?B (Replay ?mb)" by (simp add: demo_eval)
  have o2: "weights (online_network (step demo_keras ?B (Replay ?mb))) = 1"
    by (simp add: demo_eval)
  have tB: "weights (target_network ?B) = 0" by (simp add: demo_eval)
  have t2: "weights (target_network (step demo_keras ?B (Replay ?mb))) = 0"
    using target_network_sync[of demo_keras ?B ?mb "Replay ?mb" "[]"] s2 tB by simp
  have s3: "no_sync demo_keras ?D ?cs" by (simp add: demo_eval)
  have o3: "weights (online_network (run demo_keras ?D ?cs)) = 1" by (simp add: demo_eval)
  have tD: "weights (target_network ?D) = 0" by (simp add: demo_eval)
  have t3: "weights (target_network (run demo_keras ?D ?cs)) = 0"
    using target_network_sync[of demo_keras ?D ?mb "Replay ?mb" ?cs] s3 tD by simp
  show ?thesis using s1 o1 t1 s2 o2 t2 s3 o3 t3 by simp
qed



section \<open>Properties of the results table\<close>

lemma roll_step_eval:
  "roll_step w minp vs (nobs, sum_x, out) i =
     (if i \<ge> w
      then (nobs - 1 + 1, sum_x - vs ! (i - w) + vs ! i,
            out @ [if nobs - 1 + 1 \<ge> minp then Some (sum_x - vs ! (i - w) + vs ! i) else None])
      else (nobs + 1, sum_x + vs ! i,
            out @ [if nobs + 1 \<ge> minp then Some (sum_x + vs ! i) else None]))"
  by (simp add: roll_step_def Let_def)

lemma window_sum_step:
  assumes k: "k < length vs" and w: "0 < w"
  shows "sum_list (drop (Suc k - w) (take (Suc k) vs))
       = (if k \<ge> w then sum_list (drop (k - w) (take k vs)) - vs ! (k - w) + vs ! k
          else sum_list (drop (k - w) (take k vs)) + (vs ! k :: real))"
proof -
  have t: "take (Suc k) vs = take k vs @ [vs ! k]"
    using k by (simp add: take_Suc_conv_app_nth)
  show ?thesis
  proof (cases "k \<ge> w")
    case True
    have lt: "k - w < length (take k vs)" using k w True by simp
    have d: "drop (k - w) (take k vs) = take k vs ! (k - w) # drop (Suc (k - w)) (take k vs)"
      using lt by (rule Cons_nth_drop_Suc[symmetric])
    have n: "take k vs ! (k - w) = vs ! (k - w)" using w True by simp
    have s: "Suc (k - w) = Suc k - w" using True by simp
    have "sum_list (drop (Suc k - w) (take (Suc k) vs))
        = sum_list (drop (Suc k - w) (take k vs)) + vs ! k"
      unfolding t using k True w by simp
    moreover have "sum_list (drop (k - w) (take k vs))
        = vs ! (k - w) + sum_list (drop (Suc k - w) (take k vs))"
      by (subst d) (simp add: n s)
    ultimately show ?thesis using True by simp
  next
    case False
    then have "Suc k - w = 0" "k - w = 0" by simp_all
    then show ?thesis using False by (simp add: t)
  qed
qed

lemma roll_fold:
  assumes w: "0 < w"
  shows "k \<le> length vs \<Longrightarrow>
    foldl (roll_step w w vs) (0, 0, []) [0 ..< k]
      = (min k w, sum_list (drop (k - w) (take k vs)),
         map (\<lambda>i. if Suc i \<ge> w then Some (sum_list (drop (Suc i - w) (take (Suc i) vs)))
                   else None) [0 ..< k])"
proof (induction k)
  case 0
  then show ?case by simp
next
  case (Suc k)
  then have k: "k < length vs" by simp
  have IH: "foldl (roll_step w w vs) (0, 0, []) [0 ..< k]
      = (min k w, sum_list (drop (k - w) (take k vs)),
         map (\<lambda>i. if Suc i \<ge> w then Some (sum_list (drop (Suc i - w) (take (Suc i) vs)))
                   else None) [0 ..< k])"
    using Suc by simp
  have n: "(if k \<ge> w then min k w - 1 + 1 else min k w + 1) = min (Suc k) w"
    using w by (auto simp: min_def)
  have c: "(min (Suc k) w \<ge> w) = (Suc k \<ge> w)" by (auto simp: min_def)
  show ?case
  proof (cases "k \<ge> w")
    case True
    have n': "min k w - 1 + 1 = min (Suc k) w" using n True by simp
    show ?thesis
      using True w
      by (simp add: IH roll_step_eval n' c window_sum_step[OF k w] del: upt_Suc add: upt_Suc_append)
  next
    case False
    have n': "min k w + 1 = min (Suc k) w" using n False by simp
    show ?thesis
      using False w
      by (simp add: IH roll_step_eval n' c take_Suc_conv_app_nth[OF k]
            del: upt_Suc add: upt_Suc_append)
  qed
qed

lemma rolling_sum_nth:
  assumes "0 < w" and "i < length vs"
  shows "length (rolling_sum w vs) = length vs"
    and "rolling_sum w vs ! i
       = (if Suc i \<ge> w then Some (sum_list (drop (Suc i - w) (take (Suc i) vs))) else None)"
  using assms by (simp_all add: rolling_sum_def roll_fold)

lemma sum_indicator:
  "sum_list (map (\<lambda>d. if d > 0 then 1 else 0) (xs :: real list))
     = real (length (filter (\<lambda>d. d > 0) xs))"
  by (induction xs) auto

lemma strategy_wins_nth:
  assumes "i < length ds"
  shows "length (strategy_wins ds) = length ds"
    and "strategy_wins ds ! i
       = (if Suc i \<ge> 100
          then Some (real (length (filter (\<lambda>d. d > 0) (drop (Suc i - 100) (take (Suc i) ds)))))
          else None)"
proof -
  let ?vs = "map (\<lambda>d. if d > 0 then 1 else 0 :: real) ds"
  have i: "i < length ?vs" using assms by simp
  show "length (strategy_wins ds) = length ds"
    using rolling_sum_nth(1)[OF _ i, of 100] by (simp add: strategy_wins_def)
  have "drop (Suc i - 100) (take (Suc i) ?vs)
      = map (\<lambda>d. if d > 0 then 1 else 0) (drop (Suc i - 100) (take (Suc i) ds))"
    by (simp add: take_map drop_map)
  then show "strategy_wins ds ! i
       = (if Suc i \<ge> 100
          then Some (real (length (filter (\<lambda>d. d > 0) (drop (Suc i - 100) (take (Suc i) ds)))))
          else None)"
    using rolling_sum_nth(2)[OF _ i, of 100] by (simp add: strategy_wins_def sum_indicator)
qed

lemma window_count_card:
  assumes "b \<le> length xs"
  shows "length (filter P (drop a (take b xs))) = card {j. a < j \<and> j \<le> b \<and> P (xs ! (j - 1))}"
proof -
  let ?ys = "drop a (take b xs)"
  have len: "length ?ys = b - a" using assms by simp
  have nth: "\<And>i. i < b - a \<Longrightarrow> ?ys ! i = xs ! (a + i)" using assms by simp
  have "length (filter P ?ys) = card {i. i < length ?ys \<and> P (?ys ! i)}"
    by (rule length_filter_conv_card)
  also have "{i. i < length ?ys \<and> P (?ys ! i)} = {i. i < b - a \<and> P (xs ! (a + i))}"
    using len nth by auto
  also have "card \<dots> = card ((\<lambda>i. Suc (a + i)) ` {i. i < b - a \<and> P (xs ! (a + i))})"
    by (rule card_image[symmetric]) (simp add: inj_on_def)
  also have "(\<lambda>i. Suc (a + i)) ` {i. i < b - a \<and> P (xs ! (a + i))}
      = {j. a < j \<and> j \<le> b \<and> P (xs ! (j - 1))}"
  proof (intro set_eqI iffI)
    fix j assume "j \<in> (\<lambda>i. Suc (a + i)) ` {i. i < b - a \<and> P (xs ! (a + i))}"
    then show "j \<in> {j. a < j \<and> j \<le> b \<and> P (xs ! (j - 1))}" by auto
  next
    fix j assume j: "j \<in> {j. a < j \<and> j \<le> b \<and> P (xs ! (j - 1))}"
    then have "j = Suc (a + (j - 1 - a))" "j - 1 - a < b - a" "P (xs ! (a + (j - 1 - a)))"
      by auto
    then show "j \<in> (\<lambda>i. Suc (a + i)) ` {i. i < b - a \<and> P (xs ! (a + i))}"
      by (metis (mono_tags, lifting) image_eqI mem_Collect_eq)
  qed
  finally show ?thesis .
qed


text \<open>
  C8.  In the table built from \<open>e\<close> or more episodes, the
  \<open>Strategy Wins (%)\<close> entry of episode \<open>e\<close> (rows are numbered from 1) is
  absent when \<open>e < 100\<close>, and otherwise it is the number of episodes \<open>j\<close>
  with \<open>e - 99 \<le> j \<le> e\<close> whose Difference is strictly positive: a count,
  divided by nothing.
\<close>

theorem strategy_wins_rolling_count:
  assumes r: "results episode navs market_navs ds = Inr tbl"
    and e1: "1 \<le> e" and e2: "e \<le> length ds"
  shows "Difference tbl = ds
     \<and> length (Strategy_Wins tbl) = length ds
     \<and> Strategy_Wins tbl ! (e - 1)
         = (if e < 100 then None
            else Some (real (card {j. e - 99 \<le> j \<and> j \<le> e \<and> ds ! (j - 1) > 0})))"
proof -
  have d: "Difference tbl = ds" and s: "Strategy_Wins tbl = strategy_wins ds"
    using r by (auto simp: results_def Let_def split: if_splits)
  have i: "e - 1 < length ds" using e1 e2 by simp
  have se: "Suc (e - 1) = e" using e1 by simp
  have v: "strategy_wins ds ! (e - 1)
       = (if e \<ge> 100
          then Some (real (length (filter (\<lambda>d. d > 0) (drop (e - 100) (take e ds)))))
          else None)"
    using strategy_wins_nth(2)[OF i] by (simp only: se)
  have c: "e \<ge> 100 \<Longrightarrow> length (filter (\<lambda>d. d > 0) (drop (e - 100) (take e ds)))
      = card {j. e - 99 \<le> j \<and> j \<le> e \<and> ds ! (j - 1) > 0}"
  proof -
    assume h: "e \<ge> 100"
    have "{j. e - 100 < j \<and> j \<le> e \<and> ds ! (j - 1) > 0}
        = {j. e - 99 \<le> j \<and> j \<le> e \<and> ds ! (j - 1) > 0}"
      using h by auto
    then show ?thesis using window_count_card[OF e2, of "\<lambda>d. d > 0" "e - 100"] by simp
  qed
  show ?thesis using d s v c strategy_wins_nth(1)[OF i] by auto
qed

theorem strategy_wins_rolling_count_witness:
  "results 100 (replicate 100 2) (replicate 100 1) (replicate 60 1 @ replicate 40 (- 1))
     = Inr \<lparr> Episode = [1 .. 100], Agent = replicate 100 2, Market = replicate 100 1,
             Difference = replicate 60 1 @ replicate 40 (- 1),
             Strategy_Wins = strategy_wins (replicate 60 1 @ replicate 40 (- 1)) \<rparr>
   \<and> (1::nat) \<le> 100 \<and> (100::nat) \<le> length (replicate 60 (1::real) @ replicate 40 (- 1))
   \<and> strategy_wins (replicate 60 1 @ replicate 40 (- 1)) ! (100 - 1) = Some 60
   \<and> strategy_wins (replicate 60 1 @ replicate 40 (- 1)) ! (99 - 1) = None"
proof -
  define D :: "real list" where "D = replicate 60 1 @ replicate 40 (- 1)"
  define tbl where "tbl = \<lparr> Episode = [1 .. 100], Agent = replicate 100 2,
      Market = replicate 100 1, Difference = D, Strategy_Wins = strategy_wins D \<rparr>"
  have l: "length D = 100" by (simp add: D_def)
  have r: "results 100 (replicate 100 2) (replicate 100 1) D = Inr tbl"
    by (simp add: results_def tbl_def l)
  have a: "(1::nat) \<le> 100" by simp
  have b: "(100::nat) \<le> length D" by (simp add: l)
  have a': "(1::nat) \<le> 99" by simp
  have b': "(99::nat) \<le> length D" by (simp add: l)
  have nthD: "\<And>i. i < 100 \<Longrightarrow> D ! i = (if i < 60 then 1 else - 1)"
  proof -
    fix i :: nat assume i: "i < 100"
    show "D ! i = (if i < 60 then 1 else - 1)"
    proof (cases "i < 60")
      case True
      then show ?thesis by (simp add: D_def nth_append)
    next
      case False
      then have "i - 60 < 40" using i by simp
      then show ?thesis using False by (simp add: D_def nth_append)
    qed
  qed
  have set: "{j. (100::nat) - 99 \<le> j \<and> j \<le> 100 \<and> D ! (j - 1) > 0} = {1 .. 60}"
  proof (intro set_eqI iffI)
    fix j assume "j \<in> {j. (100::nat) - 99 \<le> j \<and> j \<le> 100 \<and> D ! (j - 1) > 0}"
    then have j: "1 \<le> j" "j \<le> 100" "D ! (j - 1) > 0" by simp_all
    then have "j - 1 < 100" by simp
    from nthD[OF this] j(3) have "j - 1 < 60" by (simp split: if_splits)
    then show "j \<in> {1 .. 60}" using j by simp
  next
    fix j :: nat assume "j \<in> {1 .. 60}"
    then have j: "1 \<le> j" "j \<le> 60" by simp_all
    then have "j - 1 < 100" "j - 1 < 60" by simp_all
    then have "D ! (j - 1) = 1" using nthD[of "j - 1"] by simp
    then show "j \<in> {j. (100::nat) - 99 \<le> j \<and> j \<le> 100 \<and> D ! (j - 1) > 0}"
      using j by simp
  qed
  have s: "Strategy_Wins tbl = strategy_wins D" by (simp add: tbl_def)
  have v1: "strategy_wins D ! (100 - 1) = Some 60"
    using strategy_wins_rolling_count[OF r a b, THEN conjunct2, THEN conjunct2]
    unfolding set s by simp
  have v2: "strategy_wins D ! (99 - 1) = None"
    using strategy_wins_rolling_count[OF r a' b'] by (simp add: s)
  have "results 100 (replicate 100 2) (replicate 100 1) D = Inr tbl
     \<and> (1::nat) \<le> 100 \<and> (100::nat) \<le> length D
     \<and> strategy_wins D ! (100 - 1) = Some 60 \<and> strategy_wins D ! (99 - 1) = None"
    using r a b v1 v2 by blast
  then show ?thesis unfolding tbl_def D_def .
qed



section \<open>Properties of the DataFrame helpers\<close>

lemma strip_spec:
  "\<exists>p q. s = p @ strip s @ q \<and> (\<forall>c\<in>set p. isspace c) \<and> (\<forall>c\<in>set q. isspace c)
     \<and> (strip s = [] \<or> (\<not> isspace (hd (strip s)) \<and> \<not> isspace (last (strip s))))"
proof -
  let ?p = "takeWhile isspace s"
  let ?t = "dropWhile isspace s"
  let ?q = "rev (takeWhile isspace (rev ?t))"
  let ?z = "rev (dropWhile isspace (rev ?t))"
  have z: "strip s = ?z" by (simp add: strip_def)
  have "rev ?t = takeWhile isspace (rev ?t) @ dropWhile isspace (rev ?t)" by simp
  then have "rev (rev ?t) = rev (takeWhile isspace (rev ?t) @ dropWhile isspace (rev ?t))"
    by (rule arg_cong)
  then have t: "?t = ?z @ ?q" by (simp only: rev_rev_ident rev_append)
  have s: "s = ?p @ ?z @ ?q" using t takeWhile_dropWhile_id[of isspace s] by simp
  have p: "\<forall>c\<in>set ?p. isspace c" by (auto dest: set_takeWhileD)
  have q: "\<forall>c\<in>set ?q. isspace c" by (auto dest: set_takeWhileD)
  have e: "?z = [] \<or> (\<not> isspace (hd ?z) \<and> \<not> isspace (last ?z))"
  proof (cases "?z = []")
    case True
    then show ?thesis by simp
  next
    case False
    then have d: "dropWhile isspace (rev ?t) \<noteq> []" by simp
    have l: "\<not> isspace (last ?z)" using d by (simp add: last_rev hd_dropWhile)
    have "?t \<noteq> []"
    proof
      assume n: "?t = []"
      have "?z = []" by (simp only: n rev.simps dropWhile.simps)
      with False show False by simp
    qed
    then have "\<not> isspace (hd ?t)" by (rule hd_dropWhile)
    moreover have "hd ?t = hd ?z" using False by (subst t) simp
    ultimately show ?thesis using l by simp
  qed
  show ?thesis unfolding z using s p q e by blast
qed

lemma demo_strip: "strip (''a'' @ '' '' @ '''') = ''a''" "strip (''b'' @ '' '' @ ''c'') = ''b c''"
  by (simp_all add: strip_def isspace_def)


text \<open>
  C9.  On a frame whose column labels are two-level tuples, \<open>flatten_cols\<close>
  returns the reference it was given and allocates nothing; the frame at that
  reference keeps its rows and values, every other object is untouched, and
  each label \<open>(x, y)\<close> has become the string \<open>x + " " + y\<close> without its
  leading and trailing whitespace.  The labels \<open>("a", ""), ("b", "c")\<close>
  become \<open>"a", "b c"\<close>.
\<close>

theorem flatten_cols_two_level:
  assumes r: "df < length h"
    and two: "\<forall>l\<in>set (columns (h ! df)). \<exists>x y. l = Tup [x, y]"
    and res: "flatten_cols h df = (h', ret)"
  shows "ret = df \<and> length h' = length h
     \<and> (\<forall>r<length h. r \<noteq> df \<longrightarrow> h' ! r = h ! r)
     \<and> index (h' ! df) = index (h ! df) \<and> data (h' ! df) = data (h ! df)
     \<and> length (columns (h' ! df)) = length (columns (h ! df))
     \<and> (\<forall>i<length (columns (h ! df)). \<exists>x y z p q.
            columns (h ! df) ! i = Tup [x, y]
          \<and> columns (h' ! df) ! i = Str z \<and> z = strip (x @ '' '' @ y)
          \<and> x @ '' '' @ y = p @ z @ q \<and> (\<forall>c\<in>set p. isspace c) \<and> (\<forall>c\<in>set q. isspace c)
          \<and> (z = [] \<or> (\<not> isspace (hd z) \<and> \<not> isspace (last z))))"
proof -
  let ?f = "\<lambda>col. Str (strip (str_join '' '' (label_parts col)))"
  have ret: "ret = df" and h': "h' = h[df := (h ! df)\<lparr>columns := map ?f (columns (h ! df))\<rparr>]"
    using res by (auto simp: flatten_cols_def)
  have at: "h' ! df = (h ! df)\<lparr>columns := map ?f (columns (h ! df))\<rparr>"
    using r by (simp add: h')
  have cols: "\<forall>i<length (columns (h ! df)). \<exists>x y z p q.
            columns (h ! df) ! i = Tup [x, y]
          \<and> columns (h' ! df) ! i = Str z \<and> z = strip (x @ '' '' @ y)
          \<and> x @ '' '' @ y = p @ z @ q \<and> (\<forall>c\<in>set p. isspace c) \<and> (\<forall>c\<in>set q. isspace c)
          \<and> (z = [] \<or> (\<not> isspace (hd z) \<and> \<not> isspace (last z)))"
  proof (intro allI impI)
    fix i assume i: "i < length (columns (h ! df))"
    then have "columns (h ! df) ! i \<in> set (columns (h ! df))" by simp
    with two obtain x y where xy: "columns (h ! df) ! i = Tup [x, y]" by blast
    have n: "columns (h' ! df) ! i = Str (strip (x @ '' '' @ y))"
      using i xy by (simp add: at)
    from strip_spec[of "x @ '' '' @ y"] obtain p q where
      "x @ '' '' @ y = p @ strip (x @ '' '' @ y) @ q" "\<forall>c\<in>set p. isspace c"
      "\<forall>c\<in>set q. isspace c"
      "strip (x @ '' '' @ y) = [] \<or> (\<not> isspace (hd (strip (x @ '' '' @ y)))
          \<and> \<not> isspace (last (strip (x @ '' '' @ y))))"
      by blast
    with xy n show "\<exists>x y z p q.
            columns (h ! df) ! i = Tup [x, y]
          \<and> columns (h' ! df) ! i = Str z \<and> z = strip (x @ '' '' @ y)
          \<and> x @ '' '' @ y = p @ z @ q \<and> (\<forall>c\<in>set p. isspace c) \<and> (\<forall>c\<in>set q. isspace c)
          \<and> (z = [] \<or> (\<not> isspace (hd z) \<and> \<not> isspace (last z)))"
      by blast
  qed
  have 1: "length h' = length h" by (simp add: h')
  have 2: "\<forall>r<length h. r \<noteq> df \<longrightarrow> h' ! r = h ! r" by (simp add: h')
  have 3: "index (h' ! df) = index (h ! df)" "data (h' ! df) = data (h ! df)"
    "length (columns (h' ! df)) = length (columns (h ! df))"
    by (simp_all add: at)
  show ?thesis using ret 1 2 3 cols by blast
qed


theorem flatten_cols_two_level_witness:
  "(0::nat) < length [demo_frame]
   \<and> columns ([demo_frame] ! 0) = [Tup [''a'', ''''], Tup [''b'', ''c'']]
   \<and> flatten_cols [demo_frame] 0 = ([demo_frame\<lparr>columns := [Str ''a'', Str ''b c'']\<rparr>], 0)
   \<and> columns (fst (flatten_cols [demo_frame] 0) ! 0) ! 0 = Str ''a''
   \<and> columns (fst (flatten_cols [demo_frame] 0) ! 0) ! 1 = Str ''b c''
   \<and> snd (flatten_cols [demo_frame] 0) = 0"
proof -
  define h where "h = [demo_frame]"
  define h' where "h' = fst (flatten_cols h 0)"
  define ret where "ret = snd (flatten_cols h 0)"
  have r: "0 < length h" by (simp add: h_def)
  have c: "columns (h ! 0) = [Tup [''a'', ''''], Tup [''b'', ''c'']]"
    by (simp add: h_def demo_frame_def)
  have two: "\<forall>l\<in>set (columns (h ! 0)). \<exists>x y. l = Tup [x, y]" unfolding c by simp
  have res: "flatten_cols h 0 = (h', ret)" by (simp add: h'_def ret_def)
  note T = flatten_cols_two_level[OF r two res]
  have ret0: "ret = 0" using T by (rule conjunct1)
  note each = T[THEN conjunct2, THEN conjunct2, THEN conjunct2, THEN conjunct2,
                THEN conjunct2, THEN conjunct2]
  have i0: "0 < length (columns (h ! 0))" and i1: "1 < length (columns (h ! 0))"
    unfolding c by simp_all
  from each[rule_format, OF i0] obtain x y where
    "columns (h ! 0) ! 0 = Tup [x, y]" "columns (h' ! 0) ! 0 = Str (strip (x @ '' '' @ y))"
    by blast
  then have c0: "columns (h' ! 0) ! 0 = Str ''a''" unfolding c using demo_strip by simp
  from each[rule_format, OF i1] obtain x y where
    "columns (h ! 0) ! 1 = Tup [x, y]" "columns (h' ! 0) ! 1 = Str (strip (x @ '' '' @ y))"
    by blast
  then have c1: "columns (h' ! 0) ! 1 = Str ''b c''" unfolding c using demo_strip by simp
  have e: "flatten_cols h 0 = ([demo_frame\<lparr>columns := [Str ''a'', Str ''b c'']\<rparr>], 0)"
    by (simp add: flatten_cols_def h_def demo_frame_def strip_def isspace_def)
  have "0 < length h \<and> columns (h ! 0) = [Tup [''a'', ''''], Tup [''b'', ''c'']]
    \<and> flatten_cols h 0 = ([demo_frame\<lparr>columns := [Str ''a'', Str ''b c'']\<rparr>], 0)
    \<and> columns (h' ! 0) ! 0 = Str ''a'' \<and> columns (h' ! 0) ! 1 = Str ''b c'' \<and> ret = 0"
    using r c e c0 c1 ret0 by blast
  then show ?thesis unfolding h'_def ret_def h_def .
qed


lemma mask_cases:
  "mask h df key function =
     (case getitem_key (h ! df) key of
        Inl e \<Rightarrow> (h, Inl e)
      | Inr sel \<Rightarrow>
         (if length (function sel) \<noteq> length (index (h ! df)) then (h, Inl ValueError)
          else (h @ [\<lparr> columns = columns (h ! df),
                        index = select_rows (function sel) (index (h ! df)),
                        data = map (select_rows (function sel)) (data (h ! df)) \<rparr>],
                Inr (length h))))"
  by (simp add: mask_def getitem_bool_def split: sum.splits)

text \<open>
  C10.  \<open>mask\<close> leaves every object of the heap as it was, the input frame
  among them; when it returns, the result is a newly allocated frame, at a
  reference different from the input's, holding the rows selected by the
  predicate; when it raises, the heap is unchanged.
\<close>

theorem mask_does_not_mutate:
  assumes r: "df < length h" and res: "mask h df key function = (h', ret)"
  shows "take (length h) h' = h
     \<and> h' ! df = h ! df
     \<and> (\<forall>out. ret = Inr out \<longrightarrow>
           out \<noteq> df \<and> out = length h \<and> length h' = Suc (length h)
         \<and> (\<exists>sel. getitem_key (h ! df) key = Inr sel
              \<and> h' ! out = \<lparr> columns = columns (h ! df),
                              index = select_rows (function sel) (index (h ! df)),
                              data = map (select_rows (function sel)) (data (h ! df)) \<rparr>))
     \<and> (\<forall>e. ret = Inl e \<longrightarrow> h' = h)
     \<and> (\<forall>sel. getitem_key (h ! df) key = Inr sel
              \<and> length (function sel) = length (index (h ! df)) \<longrightarrow> ret = Inr (length h))"
proof (cases "getitem_key (h ! df) key")
  case (Inl e)
  then have "h' = h" "ret = Inl e" using res by (simp_all add: mask_cases)
  then show ?thesis using Inl by simp
next
  case (Inr sel)
  show ?thesis
  proof (cases "length (function sel) = length (index (h ! df))")
    case False
    then have "h' = h" "ret = Inl ValueError" using res Inr by (simp_all add: mask_cases)
    then show ?thesis using Inr False by simp
  next
    case True
    let ?out = "\<lparr> columns = columns (h ! df),
                   index = select_rows (function sel) (index (h ! df)),
                   data = map (select_rows (function sel)) (data (h ! df)) \<rparr>"
    have h': "h' = h @ [?out]" and ret: "ret = Inr (length h)"
      using res Inr True by (simp_all add: mask_cases)
    have a: "take (length h) h' = h" by (simp add: h')
    have b: "h' ! df = h ! df" using r by (simp add: h' nth_append)
    have c: "h' ! length h = ?out" by (simp add: h')
    have d: "length h' = Suc (length h)" by (simp add: h')
    show ?thesis using a b c d ret r Inr True by auto
  qed
qed

theorem mask_does_not_mutate_witness:
  "(0::nat) < length [demo_frame]
   \<and> mask [demo_frame] 0 (Tup [''a'', '''']) demo_positive
       = ([demo_frame,
           \<lparr> columns = [Tup [''a'', ''''], Tup [''b'', ''c'']], index = [0, 2],
             data = [[1, 3], [4, 6]] \<rparr>], Inr 1)
   \<and> fst (mask [demo_frame] 0 (Tup [''a'', '''']) demo_positive) ! 0 = demo_frame
   \<and> take (length [demo_frame]) (fst (mask [demo_frame] 0 (Tup [''a'', '''']) demo_positive))
       = [demo_frame]"
proof -
  define h where "h = [demo_frame]"
  define h' where "h' = fst (mask h 0 (Tup [''a'', '''']) demo_positive)"
  define ret where "ret = snd (mask h 0 (Tup [''a'', '''']) demo_positive)"
  have r: "0 < length h" by (simp add: h_def)
  have res: "mask h 0 (Tup [''a'', '''']) demo_positive = (h', ret)"
    by (simp add: h'_def ret_def)
  note T = mask_does_not_mutate[OF r res]
  have a: "take (length h) h' = h" using T by (rule conjunct1)
  have b: "h' ! 0 = h ! 0" using T[THEN conjunct2] by (rule conjunct1)
  have e: "mask h 0 (Tup [''a'', '''']) demo_positive
       = ([demo_frame,
           \<lparr> columns = [Tup [''a'', ''''], Tup [''b'', ''c'']], index = [0, 2],
             data = [[1, 3], [4, 6]] \<rparr>], Inr 1)"
    by (simp add: mask_cases getitem_key_def select_rows_def h_def demo_frame_def demo_positive_def)
  have "0 < length h
   \<and> mask h 0 (Tup [''a'', '''']) demo_positive
       = ([demo_frame,
           \<lparr> columns = [Tup [''a'', ''''], Tup [''b'', ''c'']], index = [0, 2],
             data = [[1, 3], [4, 6]] \<rparr>], Inr 1)
   \<and> h' ! 0 = demo_frame \<and> take (length h) h' = [demo_frame]"
    using r e a b by (simp add: h_def)
  then show ?thesis unfolding h'_def ret_def h_def .
qed


end
